theory Spec2Isabelle
  imports Complex_Main "HOL-Library.Word" "HOL-Library.Log_Nat"
begin

section \<open>The display code of lighthouse (src/display.c)\<close>

text \<open>
  A shallow embedding of \<^verbatim>\<open>display.c\<close>: the scroll window computed at the head of
  \<^verbatim>\<open>draw_result_text\<close>, the order of the paint calls of \<^verbatim>\<open>redraw_all\<close>, the modifier
  loop of \<^verbatim>\<open>draw_text\<close>, the image fitter (\<^verbatim>\<open>get_new_size\<close>, \<^verbatim>\<open>draw_image\<close>) and the
  token loops of \<^verbatim>\<open>draw_line\<close> and \<^verbatim>\<open>draw_desc\<close> with their writes into the text buffer.

  Every \<^verbatim>\<open>uint32_t\<close> is a 32-bit word: \<open>+\<close>, \<open>-\<close> and \<open>*\<close> wrap around, \<open><\<close> and \<open>div\<close> are
  unsigned, as in C. What the C code leaves undefined (a division by zero, a read through
  a null or out-of-range pointer, a float that does not fit the integer it is converted
  to) is a \<open>fault\<close> of the model.
\<close>

type_synonym u32 = "32 word"

datatype fault = Div_By_Zero | Null_Deref | Out_Of_Bounds | Float_Conversion

text \<open>The macro \<^verbatim>\<open>#define min(a,b) ((a) < (b) ? (a) : (b))\<close>, at type \<^verbatim>\<open>uint32_t\<close>.\<close>

definition c_min :: "u32 \<Rightarrow> u32 \<Rightarrow> u32" where
  "c_min a b = (if a < b then a else b)"

subsection \<open>Settings, globals and results\<close>

text \<open>
  Modelled from the spec: the structures \<^verbatim>\<open>settings\<close> and \<^verbatim>\<open>global\<close> are declared in
  \<^verbatim>\<open>globals.h\<close>, which is not among the sources. The fields are the ones \<^verbatim>\<open>display.c\<close>
  reads and writes (\<^verbatim>\<open>settings.height\<close> is \<open>s_height\<close>, and so on); the spec gives the
  scroll state as \<^verbatim>\<open>{offset: uint32, highlight: uint32, count: uint32}\<close>, and the code
  stores every quantity computed from the dimensions in a \<^verbatim>\<open>uint32_t\<close>.
\<close>

record settings_t =
  s_height :: u32
  s_max_height :: u32
  s_width :: u32
  s_desc_size :: u32
  s_horiz_padding :: u32
  s_font_size :: u32
  s_desc_font_size :: u32
  s_line_gap :: u32
  s_auto_center :: u32

record global_t =
  result_count :: u32
  result_highlight :: u32
  result_offset :: u32
  real_font_size :: u32
  real_desc_font_size :: u32
  win_x_pos :: u32
  win_x_pos_with_desc :: u32
  win_y_pos :: u32


subsection \<open>The scroll window (draw_result_text, lines 576 to 598)\<close>

text \<open>
  \<^verbatim>\<open>if (global.result_count - 1 < global.result_highlight)
    global.result_highlight = global.result_count - 1;\<close>
\<close>

definition clamp_highlight :: "global_t \<Rightarrow> global_t" where
  "clamp_highlight g =
     (if result_count g - 1 < result_highlight g
      then g\<lparr>result_highlight := result_count g - 1\<rparr>
      else g)"

text \<open>\<^verbatim>\<open>uint32_t max_results = settings.max_height / settings.height - 1;\<close>\<close>

definition max_results_of :: "settings_t \<Rightarrow> u32" where
  "max_results_of s = s_max_height s div s_height s - 1"

text \<open>
  The chain of \<^verbatim>\<open>if ... else if\<close> that sets \<^verbatim>\<open>global.result_offset\<close>, with
  \<^verbatim>\<open>display_results\<close> initialised to \<^verbatim>\<open>min(global.result_count, max_results)\<close>. The result
  is the updated globals and the final \<^verbatim>\<open>display_results\<close>.
\<close>

definition set_offset :: "u32 \<Rightarrow> global_t \<Rightarrow> global_t \<times> u32" where
  "set_offset max_results g =
     (let display_results = c_min (result_count g) max_results in
      if result_count g \<le> max_results then
        (g\<lparr>result_offset := 0\<rparr>, display_results)
      else if result_count g - max_results < result_offset g then
        (g\<lparr>result_offset := result_count g - max_results\<rparr>, display_results)
      else if result_offset g + display_results < result_highlight g + 1 then
        (let g' = g\<lparr>result_offset := result_highlight g - (display_results - 1)\<rparr>
         in (g', result_count g' - result_offset g'))
      else if result_highlight g < result_offset g then
        (g\<lparr>result_offset := result_highlight g\<rparr>, display_results)
      else (g, display_results))"

text \<open>The whole recompute. The division traps when \<^verbatim>\<open>settings.height\<close> is zero.\<close>

definition scroll_window :: "settings_t \<Rightarrow> global_t \<Rightarrow> fault + (global_t \<times> u32)" where
  "scroll_window s g =
     (if s_height s = 0 then Inl Div_By_Zero
      else Inr (set_offset (max_results_of s) (clamp_highlight g)))"

subsection \<open>The paint calls of a repaint (draw_query_text, draw_result_text, redraw_all)\<close>


text \<open>
  \<^verbatim>\<open>uint32_t desc_height = settings.height*(global.result_count+1);\<close> in \<^verbatim>\<open>draw_desc\<close>, and
  \<^verbatim>\<open>uint32_t new_height = min(settings.height * (global.result_count + 1), settings.max_height);\<close>
  in \<^verbatim>\<open>draw_result_text\<close>.
\<close>

definition desc_height :: "settings_t \<Rightarrow> global_t \<Rightarrow> u32" where
  "desc_height s g = s_height s * (result_count g + 1)"

definition new_height :: "settings_t \<Rightarrow> global_t \<Rightarrow> u32" where
  "new_height s g = c_min (s_height s * (result_count g + 1)) (s_max_height s)"












subsection \<open>Draw commands, offsets and the text run (draw_text)\<close>

text \<open>
  Modelled from the spec: \<^verbatim>\<open>draw_t\<close>, \<^verbatim>\<open>draw_type_t\<close> and \<^verbatim>\<open>modifier_type_t\<close> are declared
  in \<^verbatim>\<open>display.h\<close>, which is not among the sources. The spec's StyleModifier is an enum
  over \<^verbatim>\<open>{NONE, CENTER, BOLD}\<close> and its DrawCommand a variant over text, image, rule and
  line break; the constructors and fields below are the names \<^verbatim>\<open>display.c\<close> uses
  (\<^verbatim>\<open>d.type\<close>, \<^verbatim>\<open>d.data\<close>, \<^verbatim>\<open>charac->data_length\<close>, \<^verbatim>\<open>charac->modifiers_array\<close> with its
  length). \<open>d_data\<close> is the pointer \<^verbatim>\<open>d.data\<close>: an index into the text buffer, or null.
  \<open>data_length\<close> is the width of the run that the interpreter measured when it produced
  the command.
\<close>

datatype modifier_type_t = NONE | CENTER | BOLD

datatype draw_type_t = DRAW_TEXT | DRAW_IMAGE | DRAW_LINE | NEW_LINE

record draw_t =
  d_type :: draw_type_t
  d_data :: "nat option"
  data_length :: u32
  modifiers_array :: "modifier_type_t list"

text \<open>\<^verbatim>\<open>typedef struct { uint32_t x; uint32_t y; uint32_t image_y; } offset_t;\<close>\<close>

record offset_t =
  off_x :: u32
  off_y :: u32
  off_image_y :: u32

text \<open>\<^verbatim>\<open>calculate_line_offset\<close>.\<close>

definition calculate_line_offset :: "settings_t \<Rightarrow> global_t \<Rightarrow> u32 \<Rightarrow> offset_t" where
  "calculate_line_offset s g line =
     \<lparr>off_x = s_horiz_padding s,
      off_y = s_height s * line + real_font_size g,
      off_image_y = s_height s * line\<rparr>"

text \<open>The weight of the font a run is drawn with.\<close>

datatype font_weight = WEIGHT_NORMAL | WEIGHT_BOLD

text \<open>
  The modifier loop of \<^verbatim>\<open>draw_text\<close> in the default build (Pango, lines 123 to 135):
  every \<^verbatim>\<open>CENTER\<close> in the array adds \<^verbatim>\<open>(line_width - charac->data_length) / 2\<close> to
  \<^verbatim>\<open>offset->x\<close>, every \<^verbatim>\<open>BOLD\<close> sets the weight of the font description.
\<close>

fun text_modifiers :: "modifier_type_t list \<Rightarrow> u32 \<Rightarrow> u32 \<Rightarrow> offset_t \<times> font_weight
    \<Rightarrow> offset_t \<times> font_weight" where
  "text_modifiers [] line_width len st = st"
| "text_modifiers (CENTER # ms) line_width len (offset, weight) =
     text_modifiers ms line_width len
       (offset\<lparr>off_x := off_x offset + (line_width - len) div 2\<rparr>, weight)"
| "text_modifiers (BOLD # ms) line_width len (offset, weight) =
     text_modifiers ms line_width len (offset, WEIGHT_BOLD)"
| "text_modifiers (NONE # ms) line_width len (offset, weight) =
     text_modifiers ms line_width len (offset, weight)"

text \<open>
  The same loop in the build without Pango (lines 172 to 185):
  \<^verbatim>\<open>uint32_t tmp = offset->x; offset->x += (line_width - tmp - charac->data_length) / 2;\<close>
\<close>

fun text_modifiers_no_pango :: "modifier_type_t list \<Rightarrow> u32 \<Rightarrow> u32 \<Rightarrow> offset_t \<times> font_weight
    \<Rightarrow> offset_t \<times> font_weight" where
  "text_modifiers_no_pango [] line_width len st = st"
| "text_modifiers_no_pango (CENTER # ms) line_width len (offset, weight) =
     text_modifiers_no_pango ms line_width len
       (offset\<lparr>off_x := off_x offset + (line_width - off_x offset - len) div 2\<rparr>, weight)"
| "text_modifiers_no_pango (BOLD # ms) line_width len (offset, weight) =
     text_modifiers_no_pango ms line_width len (offset, WEIGHT_BOLD)"
| "text_modifiers_no_pango (NONE # ms) line_width len (offset, weight) =
     text_modifiers_no_pango ms line_width len (offset, weight)"

text \<open>
  \<^verbatim>\<open>draw_text\<close>: the modifiers are applied, the text is drawn at
  \<^verbatim>\<open>cairo_move_to(cr, offset->x, offset->y)\<close> and its rendered width is returned. The
  renderer is outside the code: \<open>pixel_width weight text\<close> is the width it reports for
  \<open>text\<close> in the font of that weight. The result is the returned advance, the offset as the
  call leaves it behind the pointer (the position the text is drawn at) and the weight
  left in the font description.
\<close>

definition draw_text :: "(font_weight \<Rightarrow> string \<Rightarrow> u32) \<Rightarrow> draw_t \<Rightarrow> string \<Rightarrow> u32 \<Rightarrow> offset_t
    \<Rightarrow> font_weight \<Rightarrow> u32 \<times> offset_t \<times> font_weight" where
  "draw_text pixel_width charac text line_width offset weight =
     (case text_modifiers (modifiers_array charac) line_width (data_length charac) (offset, weight) of
        (offset', weight') \<Rightarrow> (pixel_width weight' text, offset', weight'))"

text \<open>
  \<^verbatim>\<open>draw_text\<close> in the build without Pango (lines 169 to 195): the weight is a local
  that starts normal and that the modifiers set. \<^verbatim>\<open>cairo_text_extents\<close> is called before
  \<^verbatim>\<open>cairo_select_font_face\<close> and \<^verbatim>\<open>cairo_set_font_size\<close>, so the advance that is returned
  is the one of the text in the font that the context holds when the call begins,
  whatever the modifiers select: \<open>advance_before text\<close>. The result is that advance and the
  offset as the call leaves it.
\<close>

definition draw_text_no_pango :: "(string \<Rightarrow> u32) \<Rightarrow> draw_t \<Rightarrow> string \<Rightarrow> u32 \<Rightarrow> offset_t
    \<Rightarrow> u32 \<times> offset_t" where
  "draw_text_no_pango advance_before charac text line_width offset =
     (case text_modifiers_no_pango (modifiers_array charac) line_width (data_length charac)
             (offset, WEIGHT_NORMAL) of
        (offset', weight') \<Rightarrow> (advance_before text, offset'))"

subsection \<open>Single-precision arithmetic of the image fitter\<close>

text \<open>
  The fitter computes \<^verbatim>\<open>float prop = min((float)win_size_x / width, (float)win_size_y / height)\<close>
  and stores \<^verbatim>\<open>prop * width\<close> and \<^verbatim>\<open>prop * height\<close> in \<^verbatim>\<open>uint32_t\<close> fields. A \<^verbatim>\<open>float\<close>
  is taken to be an IEEE 754 binary32 value, every operation rounded to nearest with ties
  to even and evaluated in single precision (\<^verbatim>\<open>FLT_EVAL_METHOD\<close> 0). Only values that
  are not negative arise: a finite one, the infinity of a division by zero, or the
  not-a-number of \<open>0 / 0\<close> and \<open>\<infinity> * 0\<close>. Every finite value that arises is 0 or lies
  between \<open>2^-32\<close> and \<open>2^64\<close>, inside the range of normal numbers, so the bounds of the
  exponent are left out: a finite value is the rational it denotes.
\<close>

datatype f32 = Fin rat | Inf | NaN

text \<open>\<open>2^e\<close> for an integer \<open>e\<close>, and \<open>\<lfloor>log\<^sub>2 x\<rfloor>\<close> for a positive rational \<open>x\<close>.\<close>

definition pow2 :: "int \<Rightarrow> rat" where
  "pow2 e = (if 0 \<le> e then 2 ^ nat e else 1 / 2 ^ nat (- e))"

definition ilog2 :: "rat \<Rightarrow> int" where
  "ilog2 x =
     (if 1 \<le> x then int (floorlog 2 (nat \<lfloor>x\<rfloor>)) - 1
      else - int (floorlog 2 (nat (\<lceil>1 / x\<rceil> - 1))))"

text \<open>The nearest integer, a tie going to the even one.\<close>

definition round_even :: "rat \<Rightarrow> int" where
  "round_even q =
     (if q - of_int \<lfloor>q\<rfloor> < 1 / 2 then \<lfloor>q\<rfloor>
      else if 1 / 2 < q - of_int \<lfloor>q\<rfloor> then \<lfloor>q\<rfloor> + 1
      else if even \<lfloor>q\<rfloor> then \<lfloor>q\<rfloor> else \<lfloor>q\<rfloor> + 1)"

text \<open>
  The binary32 value nearest to a rational that is not negative: the significand has 24
  bits, so \<open>x\<close> with \<open>2^e \<le> x < 2^(e+1)\<close> is rounded to a multiple of \<open>2^(e-23)\<close>.
\<close>

definition f32_round :: "rat \<Rightarrow> rat" where
  "f32_round x =
     (if x \<le> 0 then 0
      else of_int (round_even (x / pow2 (ilog2 x - 23))) * pow2 (ilog2 x - 23))"

text \<open>The conversion \<^verbatim>\<open>(float)\<close> of a \<^verbatim>\<open>uint32_t\<close>, the division, the product and \<open><\<close>.\<close>

definition f32_of_u32 :: "u32 \<Rightarrow> f32" where
  "f32_of_u32 w = Fin (f32_round (of_nat (unat w)))"

fun f32_div :: "f32 \<Rightarrow> f32 \<Rightarrow> f32" where
  "f32_div (Fin a) (Fin b) =
     (if b = 0 then (if a = 0 then NaN else Inf) else Fin (f32_round (a / b)))"
| "f32_div (Fin a) Inf = Fin 0"
| "f32_div Inf (Fin b) = Inf"
| "f32_div Inf Inf = NaN"
| "f32_div NaN b = NaN"
| "f32_div a NaN = NaN"

fun f32_mult :: "f32 \<Rightarrow> f32 \<Rightarrow> f32" where
  "f32_mult (Fin a) (Fin b) = Fin (f32_round (a * b))"
| "f32_mult (Fin a) Inf = (if a = 0 then NaN else Inf)"
| "f32_mult Inf (Fin b) = (if b = 0 then NaN else Inf)"
| "f32_mult Inf Inf = Inf"
| "f32_mult NaN b = NaN"
| "f32_mult a NaN = NaN"

fun f32_less :: "f32 \<Rightarrow> f32 \<Rightarrow> bool" where
  "f32_less (Fin a) (Fin b) = (a < b)"
| "f32_less (Fin a) Inf = True"
| "f32_less a b = False"

text \<open>The macro \<^verbatim>\<open>min\<close> at type \<^verbatim>\<open>float\<close>.\<close>

definition f32_min :: "f32 \<Rightarrow> f32 \<Rightarrow> f32" where
  "f32_min a b = (if f32_less a b then a else b)"

text \<open>
  The conversion of a \<^verbatim>\<open>float\<close> to \<^verbatim>\<open>uint32_t\<close> drops the fraction; C leaves it
  undefined when the value does not fit.
\<close>

fun u32_of_f32 :: "f32 \<Rightarrow> fault + u32" where
  "u32_of_f32 (Fin a) =
     (if \<lfloor>a\<rfloor> < 2 ^ 32 then Inr (word_of_int \<lfloor>a\<rfloor>) else Inl Float_Conversion)"
| "u32_of_f32 a = Inl Float_Conversion"

subsection \<open>The image fitter (get_new_size, draw_image_with_gdk, draw_png, draw_image)\<close>

text \<open>\<^verbatim>\<open>image_format_t\<close>: the fields \<^verbatim>\<open>width\<close> and \<^verbatim>\<open>height\<close>, both \<^verbatim>\<open>uint32_t\<close>.\<close>

record image_format_t =
  img_width :: u32
  img_height :: u32

text \<open>
  The factor \<^verbatim>\<open>prop\<close> and the scaled size, as both \<^verbatim>\<open>get_new_size\<close> and \<^verbatim>\<open>draw_png\<close>
  compute them from the natural size \<open>(w, h)\<close> and the available \<open>(win_size_x, win_size_y)\<close>.
\<close>

definition scale_prop :: "u32 \<Rightarrow> u32 \<Rightarrow> u32 \<Rightarrow> u32 \<Rightarrow> f32" where
  "scale_prop w h win_size_x win_size_y =
     f32_min (f32_div (f32_of_u32 win_size_x) (f32_of_u32 w))
             (f32_div (f32_of_u32 win_size_y) (f32_of_u32 h))"

definition scaled_size :: "u32 \<Rightarrow> u32 \<Rightarrow> u32 \<Rightarrow> u32 \<Rightarrow> fault + image_format_t" where
  "scaled_size w h win_size_x win_size_y =
     (case u32_of_f32 (f32_mult (scale_prop w h win_size_x win_size_y) (f32_of_u32 w)) of
        Inl e \<Rightarrow> Inl e
      | Inr fw \<Rightarrow>
          (case u32_of_f32 (f32_mult (scale_prop w h win_size_x win_size_y) (f32_of_u32 h)) of
             Inl e \<Rightarrow> Inl e
           | Inr fh \<Rightarrow> Inr \<lparr>img_width = fw, img_height = fh\<rparr>))"

text \<open>
  \<^verbatim>\<open>get_new_size\<close> writes through \<^verbatim>\<open>format\<close> only when the picture is too big; otherwise
  \<^verbatim>\<open>*format\<close> keeps the value the caller put there.
\<close>

definition get_new_size :: "u32 \<Rightarrow> u32 \<Rightarrow> u32 \<Rightarrow> u32 \<Rightarrow> image_format_t \<Rightarrow> fault + image_format_t" where
  "get_new_size w h win_size_x win_size_y format =
     (if win_size_x < w \<or> win_size_y < h then scaled_size w h win_size_x win_size_y
      else Inr format)"

text \<open>The modifier loop of the image painters: CENTER adds \<^verbatim>\<open>(win_size_x - format->width) / 2\<close>.\<close>

fun image_modifiers :: "modifier_type_t list \<Rightarrow> u32 \<Rightarrow> u32 \<Rightarrow> offset_t \<Rightarrow> offset_t" where
  "image_modifiers [] win_size_x fw offset = offset"
| "image_modifiers (CENTER # ms) win_size_x fw offset =
     image_modifiers ms win_size_x fw (offset\<lparr>off_x := off_x offset + (win_size_x - fw) div 2\<rparr>)"
| "image_modifiers (m # ms) win_size_x fw offset = image_modifiers ms win_size_x fw offset"

text \<open>
  What the painters ask of the file system and of the image libraries. \<open>wordexp\<close> is the
  first word of the shell expansion of a path (\<open>None\<close> when \<^verbatim>\<open>wordexp\<close> fails),
  \<open>file_exists\<close> the test \<^verbatim>\<open>access(path, F_OK) != -1\<close>, \<open>fopen_fgetc\<close> the first byte that
  \<^verbatim>\<open>fgetc\<close> reads from the opened file (\<open>-1\<close> for \<^verbatim>\<open>EOF\<close>; \<open>None\<close> when \<^verbatim>\<open>fopen\<close> returns
  null), \<open>pixbuf_size\<close> the width and height of the pixbuf that
  \<^verbatim>\<open>gdk_pixbuf_new_from_file\<close> decodes (\<open>None\<close> when it sets its error), \<open>png_size\<close> the
  width and height of the surface of \<^verbatim>\<open>cairo_image_surface_create_from_png\<close>.
\<close>

record image_env =
  wordexp :: "string \<Rightarrow> string option"
  file_exists :: "string \<Rightarrow> bool"
  fopen_fgetc :: "string \<Rightarrow> int option"
  pixbuf_size :: "string \<Rightarrow> (u32 \<times> u32) option"
  png_size :: "string \<Rightarrow> u32 \<times> u32"

text \<open>
  \<^verbatim>\<open>draw_image_with_gdk\<close> (the default build): on a decoding error it returns at once;
  otherwise the picture is scaled to \<^verbatim>\<open>format\<close> as \<^verbatim>\<open>get_new_size\<close> leaves it and painted
  at the offset after the modifiers. The result is that offset and \<^verbatim>\<open>*format\<close>.
\<close>

definition draw_image_with_gdk :: "image_env \<Rightarrow> string \<Rightarrow> modifier_type_t list \<Rightarrow> offset_t \<Rightarrow> u32
    \<Rightarrow> u32 \<Rightarrow> image_format_t \<Rightarrow> fault + (offset_t \<times> image_format_t)" where
  "draw_image_with_gdk env path mods offset win_size_x win_size_y format =
     (case pixbuf_size env path of
        None \<Rightarrow> Inr (offset, format)
      | Some (w, h) \<Rightarrow>
          (case get_new_size w h win_size_x win_size_y format of
             Inl e \<Rightarrow> Inl e
           | Inr format' \<Rightarrow>
               Inr (image_modifiers mods win_size_x (img_width format') offset, format')))"

text \<open>
  \<^verbatim>\<open>draw_png\<close> (the build without GDK): \<^verbatim>\<open>format\<close> is first set to the natural size, the
  modifiers are applied, and a picture that is too big is scaled.
\<close>

definition draw_png :: "image_env \<Rightarrow> string \<Rightarrow> modifier_type_t list \<Rightarrow> offset_t \<Rightarrow> u32
    \<Rightarrow> u32 \<Rightarrow> fault + (offset_t \<times> image_format_t)" where
  "draw_png env path mods offset win_size_x win_size_y =
     (case png_size env path of
        (w, h) \<Rightarrow>
          (if win_size_x < w \<or> win_size_y < h then
             (case scaled_size w h win_size_x win_size_y of
                Inl e \<Rightarrow> Inl e
              | Inr new_format \<Rightarrow> Inr (image_modifiers mods win_size_x w offset, new_format))
           else Inr (image_modifiers mods win_size_x w offset, \<lparr>img_width = w, img_height = h\<rparr>)))"

text \<open>
  \<^verbatim>\<open>draw_image\<close> (the default build): \<^verbatim>\<open>format\<close> starts as \<^verbatim>\<open>{0, 0}\<close>; the path is expanded
  (and kept as it is when the expansion fails); a file that does not exist gives
  \<^verbatim>\<open>{0, 0}\<close>; the first byte selects the decoder (137, 255 and 47), any other byte leaves
  \<^verbatim>\<open>format\<close> as it is. \<^verbatim>\<open>fopen\<close> is not checked: \<^verbatim>\<open>fgetc\<close> on a null stream is a fault. The
  offset is passed by value, so only \<^verbatim>\<open>format\<close> reaches the caller.
\<close>

definition expand_path :: "image_env \<Rightarrow> string \<Rightarrow> string" where
  "expand_path env data = (case wordexp env data of None \<Rightarrow> data | Some p \<Rightarrow> p)"

definition draw_image :: "image_env \<Rightarrow> string \<Rightarrow> modifier_type_t list \<Rightarrow> offset_t \<Rightarrow> u32 \<Rightarrow> u32
    \<Rightarrow> fault + image_format_t" where
  "draw_image env data mods offset win_size_x win_size_y =
     (if \<not> file_exists env (expand_path env data) then Inr \<lparr>img_width = 0, img_height = 0\<rparr>
      else
        (case fopen_fgetc env (expand_path env data) of
           None \<Rightarrow> Inl Null_Deref
         | Some b \<Rightarrow>
             (if b = 137 \<or> b = 255 \<or> b = 47 then
                (case draw_image_with_gdk env (expand_path env data) mods offset win_size_x
                        win_size_y \<lparr>img_width = 0, img_height = 0\<rparr> of
                   Inl e \<Rightarrow> Inl e
                 | Inr (offset', format) \<Rightarrow> Inr format)
              else Inr \<lparr>img_width = 0, img_height = 0\<rparr>)))"

text \<open>The same function in the build without GDK: only the byte 137 selects a decoder.\<close>

definition draw_image_no_gdk :: "image_env \<Rightarrow> string \<Rightarrow> modifier_type_t list \<Rightarrow> offset_t \<Rightarrow> u32
    \<Rightarrow> u32 \<Rightarrow> fault + image_format_t" where
  "draw_image_no_gdk env data mods offset win_size_x win_size_y =
     (if \<not> file_exists env (expand_path env data) then Inr \<lparr>img_width = 0, img_height = 0\<rparr>
      else
        (case fopen_fgetc env (expand_path env data) of
           None \<Rightarrow> Inl Null_Deref
         | Some b \<Rightarrow>
             (if b = 137 then
                (case draw_png env (expand_path env data) mods offset win_size_x win_size_y of
                   Inl e \<Rightarrow> Inl e
                 | Inr (offset', format) \<Rightarrow> Inr format)
              else Inr \<lparr>img_width = 0, img_height = 0\<rparr>)))"

subsection \<open>The text buffer and its painters (draw_typed_line, draw_line, draw_desc)\<close>

text \<open>
  A text is a buffer of bytes that the painters read and write in place. The string a C
  function reads at a pointer into it runs up to the first zero byte.
\<close>

definition c_string :: "string \<Rightarrow> nat \<Rightarrow> string" where
  "c_string buf p = takeWhile (\<lambda>ch. ch \<noteq> CHR 0x00) (drop p buf)"

text \<open>
  \<^verbatim>\<open>draw_typed_line\<close>, lines 69 to 72: the byte at the cursor is saved and overwritten by a
  terminator, the text before the cursor is measured and the byte is restored. The result
  is the buffer after the call and the string that was measured.
\<close>

definition draw_typed_line_text :: "string \<Rightarrow> u32 \<Rightarrow> fault + (string \<times> string)" where
  "draw_typed_line_text text cursor =
     (if length text \<le> unat cursor then Inl Out_Of_Bounds
      else
        (case text ! unat cursor of
           saved_char \<Rightarrow>
             (case text[unat cursor := CHR 0x00] of
                text1 \<Rightarrow> Inr (text1[unat cursor := saved_char], c_string text1 0))))"

text \<open>
  What the token loops ask of their surroundings. \<open>parse_result_line\<close> is the interpreter
  of the markup (its code is not among the sources): from its own state (the modifier
  array that it grows), the buffer, the pointer \<^verbatim>\<open>c\<close> and the width still free it gives the
  next command, the new \<^verbatim>\<open>c\<close> (possibly null) and its new state; it reads the buffer and
  does not write it. \<open>pixel_width\<close> is the renderer of text, \<open>images\<close> the file system and
  the image libraries.
\<close>

record 'p paint_env =
  parse_result_line :: "'p \<Rightarrow> string \<Rightarrow> nat \<Rightarrow> u32 \<Rightarrow> draw_t \<times> nat option \<times> 'p"
  pixel_width :: "font_weight \<Rightarrow> string \<Rightarrow> u32"
  images :: image_env

text \<open>
  The variables of a token loop: the buffer, the pointer \<^verbatim>\<open>c\<close>, the offset, the state of
  the interpreter and the weight left in the font description.
\<close>

record 'p paint_state =
  text_buf :: string
  st_cur :: "nat option"
  st_offset :: offset_t
  st_parser :: 'p
  st_weight :: font_weight

datatype 'a step = Continue 'a | Break 'a

text \<open>
  The \<^verbatim>\<open>switch\<close> of \<^verbatim>\<open>draw_line\<close>, on the buffer as truncated at \<^verbatim>\<open>c\<close>: a rule and a line
  break paint nothing; an image advances \<open>x\<close> by the width of the format that \<^verbatim>\<open>draw_image\<close>
  returns; a text is drawn with the weight reset to normal and advances \<open>x\<close> by its
  rendered width. In \<^verbatim>\<open>offset.x += draw_text(..., &offset, ...)\<close> the call is taken to
  come before the read of \<^verbatim>\<open>offset.x\<close>. The data of a command is read at \<open>d_data\<close>, which
  must point into the buffer.
\<close>

definition draw_line_command :: "'p paint_env \<Rightarrow> settings_t \<Rightarrow> draw_t \<Rightarrow> nat \<Rightarrow> string \<Rightarrow> offset_t
    \<Rightarrow> font_weight \<Rightarrow> fault + (offset_t \<times> font_weight)" where
  "draw_line_command env s d p buf offset weight =
     (case d_type d of
        DRAW_LINE \<Rightarrow> Inr (offset, weight)
      | NEW_LINE \<Rightarrow> Inr (offset, weight)
      | DRAW_IMAGE \<Rightarrow>
          (if length buf \<le> p then Inl Out_Of_Bounds
           else
             (case draw_image (images env) (c_string buf p) (modifiers_array d) offset
                     (s_width s - off_x offset) (s_height s) of
                Inl e \<Rightarrow> Inl e
              | Inr format \<Rightarrow> Inr (offset\<lparr>off_x := off_x offset + img_width format\<rparr>, weight)))
      | DRAW_TEXT \<Rightarrow>
          (if length buf \<le> p then Inl Out_Of_Bounds
           else
             (case draw_text (pixel_width env) d (c_string buf p) (s_width s - off_x offset)
                     offset WEIGHT_NORMAL of
                (advance, offset', weight') \<Rightarrow>
                  Inr (offset'\<lparr>off_x := off_x offset' + advance\<rparr>, weight'))))"

text \<open>
  One turn of the loop of \<^verbatim>\<open>draw_line\<close> (lines 436 to 465), entered with \<^verbatim>\<open>c\<close> at \<open>c\<close>: the
  next command is parsed; a command without data ends the loop; otherwise the byte at the
  new \<^verbatim>\<open>c\<close> is saved and overwritten by a terminator, the command is drawn and the byte is
  restored.
\<close>

definition draw_line_body :: "'p paint_env \<Rightarrow> settings_t \<Rightarrow> 'p paint_state \<Rightarrow> nat
    \<Rightarrow> fault + 'p paint_state step" where
  "draw_line_body env s st c =
     (case parse_result_line env (st_parser st) (text_buf st) c (s_width s - off_x (st_offset st)) of
        (d, c', ps') \<Rightarrow>
          (case d_data d of
             None \<Rightarrow> Inr (Break (st\<lparr>st_cur := c', st_parser := ps'\<rparr>))
           | Some p \<Rightarrow>
               (case c' of
                  None \<Rightarrow> Inl Null_Deref
                | Some k \<Rightarrow>
                    (if length (text_buf st) \<le> k then Inl Out_Of_Bounds
                     else
                       (case draw_line_command env s d p ((text_buf st)[k := CHR 0x00])
                               (st_offset st) (st_weight st) of
                          Inl e \<Rightarrow> Inl e
                        | Inr (offset', weight') \<Rightarrow>
                            Inr (Continue
                              \<lparr>text_buf = ((text_buf st)[k := CHR 0x00])[k := text_buf st ! k],
                               st_cur = Some k, st_offset = offset', st_parser = ps',
                               st_weight = weight'\<rparr>))))))"

text \<open>
  The loop \<^verbatim>\<open>while (c && *c != '\0')\<close>. Nothing in \<^verbatim>\<open>draw_line\<close> makes the interpreter
  advance, so the loop is given fuel: \<open>None\<close> is a run that is still going when the fuel is
  spent.
\<close>

fun draw_line_loop :: "nat \<Rightarrow> 'p paint_env \<Rightarrow> settings_t \<Rightarrow> 'p paint_state
    \<Rightarrow> (fault + 'p paint_state) option" where
  "draw_line_loop 0 env s st = None"
| "draw_line_loop (Suc n) env s st =
     (case st_cur st of
        None \<Rightarrow> Some (Inr st)
      | Some c \<Rightarrow>
          (if length (text_buf st) \<le> c then Some (Inl Out_Of_Bounds)
           else if text_buf st ! c = CHR 0x00 then Some (Inr st)
           else
             (case draw_line_body env s st c of
                Inl e \<Rightarrow> Some (Inl e)
              | Inr (Break st') \<Rightarrow> Some (Inr st')
              | Inr (Continue st') \<Rightarrow> draw_line_loop n env s st')))"

text \<open>
  \<^verbatim>\<open>draw_line\<close> on a text, at a row: \<^verbatim>\<open>c\<close> starts at the head of the text, the offset at
  \<^verbatim>\<open>calculate_line_offset(line)\<close>, the font with its normal weight, the interpreter with
  the empty modifier array \<open>p0\<close>. The result is the final state; its buffer is the text as
  the call leaves it.
\<close>

definition draw_line :: "nat \<Rightarrow> 'p paint_env \<Rightarrow> settings_t \<Rightarrow> global_t \<Rightarrow> 'p \<Rightarrow> string \<Rightarrow> u32
    \<Rightarrow> (fault + 'p paint_state) option" where
  "draw_line fuel env s g p0 text line =
     draw_line_loop fuel env s
       \<lparr>text_buf = text, st_cur = Some 0, st_offset = calculate_line_offset s g line,
        st_parser = p0,
        st_weight = WEIGHT_NORMAL\<rparr>"

text \<open>
  The \<^verbatim>\<open>switch\<close> of \<^verbatim>\<open>draw_desc\<close> (lines 518 to 553), with \<^verbatim>\<open>desc_height\<close> as computed at
  the head of the function. There is no test of \<^verbatim>\<open>d.data\<close> in \<^verbatim>\<open>draw_desc\<close>: an image
  command without data makes \<^verbatim>\<open>wordexp\<close> read through a null pointer; for a text command
  without data Pango refuses the null text and lays out the empty text.
\<close>

definition draw_desc_command :: "'p paint_env \<Rightarrow> settings_t \<Rightarrow> global_t \<Rightarrow> draw_t \<Rightarrow> string
    \<Rightarrow> offset_t \<Rightarrow> font_weight \<Rightarrow> fault + (offset_t \<times> font_weight)" where
  "draw_desc_command env s g d buf offset weight =
     (case d_type d of
        DRAW_IMAGE \<Rightarrow>
          (case d_data d of
             None \<Rightarrow> Inl Null_Deref
           | Some p \<Rightarrow>
               (if length buf \<le> p then Inl Out_Of_Bounds
                else
                  (case draw_image (images env) (c_string buf p) (modifiers_array d) offset
                          (s_desc_size s - (off_x offset - s_width s))
                          (desc_height s g - off_image_y offset) of
                     Inl e \<Rightarrow> Inl e
                   | Inr format \<Rightarrow>
                       Inr (\<lparr>off_x = off_x offset + img_width format,
                             off_y = off_image_y offset + img_height format,
                             off_image_y = off_image_y offset + img_height format\<rparr>, weight))))
      | DRAW_LINE \<Rightarrow>
          Inr (\<lparr>off_x = s_width s,
                off_y = off_y offset + real_desc_font_size g div 2 + real_desc_font_size g,
                off_image_y = off_image_y offset + 2 * real_desc_font_size g\<rparr>, weight)
      | NEW_LINE \<Rightarrow>
          Inr (\<lparr>off_x = s_width s,
                off_y = off_y offset + real_desc_font_size g,
                off_image_y = off_image_y offset + real_desc_font_size g\<rparr>, weight)
      | DRAW_TEXT \<Rightarrow>
          (if (case d_data d of None \<Rightarrow> False | Some p \<Rightarrow> length buf \<le> p)
           then Inl Out_Of_Bounds
           else
             (case draw_text (pixel_width env) d
                     (case d_data d of None \<Rightarrow> [] | Some p \<Rightarrow> c_string buf p)
                     (s_width s + s_desc_size s - off_x offset) offset WEIGHT_NORMAL of
                (advance, offset', weight') \<Rightarrow>
                  Inr (offset'\<lparr>off_x := off_x offset' + advance\<rparr>, weight'))))"

text \<open>The wrap at the end of a turn (lines 555 to 560).\<close>

definition desc_wrap :: "settings_t \<Rightarrow> global_t \<Rightarrow> offset_t \<Rightarrow> offset_t" where
  "desc_wrap s g offset =
     (if s_width s + s_desc_size s < off_x offset + s_desc_font_size s
      then \<lparr>off_x = s_width s,
            off_y = off_y offset + real_desc_font_size g,
            off_image_y = off_image_y offset + real_desc_font_size g\<rparr>
      else offset)"

text \<open>
  One turn of the loop of \<^verbatim>\<open>draw_desc\<close>: the next command is parsed, the byte at the new
  \<^verbatim>\<open>c\<close> is saved and overwritten by a terminator, the command is drawn, the byte is
  restored and the offset is wrapped.
\<close>

definition draw_desc_body :: "'p paint_env \<Rightarrow> settings_t \<Rightarrow> global_t \<Rightarrow> 'p paint_state \<Rightarrow> nat
    \<Rightarrow> fault + 'p paint_state" where
  "draw_desc_body env s g st c =
     (case parse_result_line env (st_parser st) (text_buf st) c
             (s_desc_size s + s_width s - off_x (st_offset st)) of
        (d, c', ps') \<Rightarrow>
          (case c' of
             None \<Rightarrow> Inl Null_Deref
           | Some k \<Rightarrow>
               (if length (text_buf st) \<le> k then Inl Out_Of_Bounds
                else
                  (case draw_desc_command env s g d ((text_buf st)[k := CHR 0x00])
                          (st_offset st) (st_weight st) of
                     Inl e \<Rightarrow> Inl e
                   | Inr (offset', weight') \<Rightarrow>
                       Inr \<lparr>text_buf = ((text_buf st)[k := CHR 0x00])[k := text_buf st ! k],
                            st_cur = Some k, st_offset = desc_wrap s g offset',
                            st_parser = ps', st_weight = weight'\<rparr>))))"

fun draw_desc_loop :: "nat \<Rightarrow> 'p paint_env \<Rightarrow> settings_t \<Rightarrow> global_t \<Rightarrow> 'p paint_state
    \<Rightarrow> (fault + 'p paint_state) option" where
  "draw_desc_loop 0 env s g st = None"
| "draw_desc_loop (Suc n) env s g st =
     (case st_cur st of
        None \<Rightarrow> Some (Inr st)
      | Some c \<Rightarrow>
          (if length (text_buf st) \<le> c then Some (Inl Out_Of_Bounds)
           else if text_buf st ! c = CHR 0x00 then Some (Inr st)
           else
             (case draw_desc_body env s g st c of
                Inl e \<Rightarrow> Some (Inl e)
              | Inr st' \<Rightarrow> draw_desc_loop n env s g st')))"

text \<open>
  \<^verbatim>\<open>draw_desc\<close> on a text: the offset starts at
  \<^verbatim>\<open>{settings.width + 2, global.real_desc_font_size, 0}\<close>.
\<close>

definition draw_desc :: "nat \<Rightarrow> 'p paint_env \<Rightarrow> settings_t \<Rightarrow> global_t \<Rightarrow> 'p \<Rightarrow> string
    \<Rightarrow> (fault + 'p paint_state) option" where
  "draw_desc fuel env s g p0 text =
     draw_desc_loop fuel env s g
       \<lparr>text_buf = text, st_cur = Some 0,
        st_offset = \<lparr>off_x = s_width s + 2, off_y = real_desc_font_size g, off_image_y = 0\<rparr>,
        st_parser = p0, st_weight = WEIGHT_NORMAL\<rparr>"

section \<open>Properties\<close>

subsection \<open>Arithmetic of the scroll window\<close>

lemma unat_suc_below:
  fixes a b :: u32
  assumes "unat a < unat b"
  shows "unat (a + 1) = unat a + 1"
proof -
  have "unat b < 2 ^ LENGTH(32)" by (rule unsigned_less)
  with assms have "unat a + unat (1::u32) < 2 ^ LENGTH(32)" by simp
  then have "unat (a + 1) = unat a + unat (1::u32)" by (simp only: unat_add_lem)
  then show ?thesis by simp
qed

lemma clamp_highlight_unat:
  assumes "result_count g \<noteq> 0"
  shows "unat (result_highlight (clamp_highlight g)) =
         min (unat (result_highlight g)) (unat (result_count g) - 1)"
  using assms by (simp add: clamp_highlight_def word_less_nat_alt unat_minus_one min_def)

lemma clamp_highlight_below:
  "result_count (clamp_highlight g) = 0 \<or>
   result_highlight (clamp_highlight g) < result_count (clamp_highlight g)"
proof (cases "result_count g = 0")
  case True
  then show ?thesis by (simp add: clamp_highlight_def)
next
  case False
  then have "0 < unat (result_count g)" by (simp add: unat_gt_0)
  with clamp_highlight_unat [OF False]
  have "unat (result_highlight (clamp_highlight g)) < unat (result_count g)" by simp
  moreover have "result_count (clamp_highlight g) = result_count g"
    by (simp add: clamp_highlight_def)
  ultimately show ?thesis
    by (simp only: word_less_nat_alt) simp
qed

lemma set_offset_sum_le:
  assumes h: "result_count g = 0 \<or> result_highlight g < result_count g"
  shows "unat (result_offset (fst (set_offset m g))) + unat (snd (set_offset m g))
         \<le> unat (result_count g)
       \<and> result_count (fst (set_offset m g)) = result_count g
       \<and> result_highlight (fst (set_offset m g)) = result_highlight g"
proof (cases "result_count g \<le> m")
  case True
  then show ?thesis
    by (simp add: set_offset_def c_min_def Let_def word_le_nat_alt word_less_nat_alt)
next
  case False
  then have mc: "unat m < unat (result_count g)"
    by (simp add: word_le_nat_alt)
  then have sub: "unat (result_count g - m) = unat (result_count g) - unat m"
    by (simp add: unat_sub word_le_nat_alt)
  have dm: "c_min (result_count g) m = m"
    using mc by (simp add: c_min_def word_less_nat_alt)
  from mc h have hc: "unat (result_highlight g) < unat (result_count g)"
    by (auto simp: word_less_nat_alt)
  show ?thesis
  proof (cases "result_count g - m < result_offset g")
    case True
    with False show ?thesis
      using mc sub dm by (simp add: set_offset_def Let_def)
  next
    case nB: False
    then have om: "unat (result_offset g) + unat m \<le> unat (result_count g)"
      using sub mc by (simp add: word_less_nat_alt)
    then have add: "unat (result_offset g + m) = unat (result_offset g) + unat m"
      by (metis le_less_trans unat_add_lem unsigned_less)
    have h1: "unat (result_highlight g + 1) = unat (result_highlight g) + 1"
      using hc by (rule unat_suc_below)
    show ?thesis
    proof (cases "result_offset g + m < result_highlight g + 1")
      case C: True
      then have lt: "unat (result_offset g) + unat m \<le> unat (result_highlight g)"
        using add h1 by (simp add: word_less_nat_alt)
      have off: "unat (result_highlight g - (m - 1)) \<le> unat (result_count g)"
      proof (cases "m = 0")
        case True
        then show ?thesis using h1 hc by simp
      next
        case m0: False
        then have "unat (m - 1) = unat m - 1" by (simp add: unat_minus_one)
        moreover have "unat (m - 1) \<le> unat (result_highlight g)"
          using lt calculation by simp
        ultimately have "unat (result_highlight g - (m - 1)) = unat (result_highlight g) - (unat m - 1)"
          by (simp add: unat_sub word_le_nat_alt)
        then show ?thesis using hc by simp
      qed
      then have "unat (result_count g - (result_highlight g - (m - 1))) =
                 unat (result_count g) - unat (result_highlight g - (m - 1))"
        by (simp add: unat_sub word_le_nat_alt)
      with off False nB C dm show ?thesis
        by (simp add: set_offset_def Let_def)
    next
      case nC: False
      show ?thesis
      proof (cases "result_highlight g < result_offset g")
        case True
        then have "unat (result_highlight g) < unat (result_offset g)"
          by (simp add: word_less_nat_alt)
        with om False nB nC dm True show ?thesis
          by (simp add: set_offset_def Let_def)
      next
        case False
        with om \<open>\<not> result_count g \<le> m\<close> nB nC dm show ?thesis
          by (simp add: set_offset_def Let_def)
      qed
    qed
  qed
qed

lemma set_offset_keeps_highlight:
  assumes c: "result_count g \<noteq> 0" and m: "m \<noteq> 0"
    and h: "result_highlight g < result_count g"
    and tail: "result_count g \<le> m \<or> \<not> result_count g - m < result_offset g
               \<or> result_count g - m \<le> result_highlight g"
  shows "result_offset (fst (set_offset m g)) \<le> result_highlight g
       \<and> unat (result_highlight g) < unat (result_offset (fst (set_offset m g))) + unat (snd (set_offset m g))"
proof (cases "result_count g \<le> m")
  case True
  from h have hc: "unat (result_highlight g) < unat (result_count g)"
    by (simp add: word_less_nat_alt)
  have "unat (c_min (result_count g) m) = unat (result_count g)"
    using True by (auto simp: c_min_def word_le_nat_alt word_less_nat_alt)
  with True hc show ?thesis
    by (simp add: set_offset_def Let_def)
next
  case False
  then have mc: "unat m < unat (result_count g)"
    by (simp add: word_le_nat_alt)
  then have sub: "unat (result_count g - m) = unat (result_count g) - unat m"
    by (simp add: unat_sub word_le_nat_alt)
  have dm: "c_min (result_count g) m = m"
    using mc by (simp add: c_min_def word_less_nat_alt)
  from h have hc: "unat (result_highlight g) < unat (result_count g)"
    by (simp add: word_less_nat_alt)
  from m have m1: "unat (m - 1) = unat m - 1" "0 < unat m"
    by (simp_all add: unat_minus_one unat_gt_0)
  show ?thesis
  proof (cases "result_count g - m < result_offset g")
    case True
    with tail False have "result_count g - m \<le> result_highlight g" by simp
    with True False dm sub hc mc show ?thesis
      by (simp add: set_offset_def Let_def word_le_nat_alt)
  next
    case nB: False
    then have om: "unat (result_offset g) + unat m \<le> unat (result_count g)"
      using sub mc by (simp add: word_less_nat_alt)
    then have add: "unat (result_offset g + m) = unat (result_offset g) + unat m"
      by (metis le_less_trans unat_add_lem unsigned_less)
    have h1: "unat (result_highlight g + 1) = unat (result_highlight g) + 1"
      using hc by (rule unat_suc_below)
    show ?thesis
    proof (cases "result_offset g + m < result_highlight g + 1")
      case C: True
      then have lt: "unat (result_offset g) + unat m \<le> unat (result_highlight g)"
        using add h1 by (simp add: word_less_nat_alt)
      then have le: "unat (m - 1) \<le> unat (result_highlight g)"
        using m1 by simp
      then have o': "unat (result_highlight g - (m - 1)) = unat (result_highlight g) - (unat m - 1)"
        using m1 by (simp add: unat_sub word_le_nat_alt)
      then have "unat (result_highlight g - (m - 1)) \<le> unat (result_count g)"
        using hc by simp
      then have "unat (result_count g - (result_highlight g - (m - 1))) =
                 unat (result_count g) - unat (result_highlight g - (m - 1))"
        by (simp add: unat_sub word_le_nat_alt)
      with o' False nB C dm hc show ?thesis
        by (simp add: set_offset_def Let_def word_le_nat_alt)
    next
      case nC: False
      then have ge: "unat (result_highlight g) < unat (result_offset g) + unat m"
        using add h1 by (simp add: word_less_nat_alt)
      show ?thesis
      proof (cases "result_highlight g < result_offset g")
        case True
        with False nB nC dm m1 show ?thesis
          by (simp add: set_offset_def Let_def)
      next
        case nD: False
        then have "result_offset g \<le> result_highlight g"
          by (simp add: not_less)
        with ge \<open>\<not> result_count g \<le> m\<close> nB nC nD dm show ?thesis
          by (simp add: set_offset_def Let_def)
      qed
    qed
  qed
qed

subsection \<open>The scroll window\<close>

text \<open>
  C1. The claim: for every state with \<open>count > 0\<close>, after the recompute
  \<open>offset \<le> highlight \<le> offset + display_count - 1\<close> and
  \<open>offset + display_count \<le> count\<close>. The code breaks it: with 10 results, 5 visible rows
  (\<open>max_height = 60\<close>, \<open>height = 10\<close>), a stale offset 8 and the highlight at 2, the branch
  that pins the window to the tail sets the offset to 5 and, being one arm of an
  \<^verbatim>\<open>else if\<close> chain, skips the arm that pulls the window up to the highlight: the
  highlighted row 2 lies above the window of rows 5 to 9.
\<close>

theorem scroll_tail_pin_loses_highlight:
  "scroll_window (s\<lparr>s_height := 10, s_max_height := 60\<rparr>)
     (g\<lparr>result_count := 10, result_highlight := 2, result_offset := 8\<rparr>)
   = Inr (g\<lparr>result_count := 10, result_highlight := 2, result_offset := 5\<rparr>, 5)"
  by (simp add: scroll_window_def set_offset_def clamp_highlight_def max_results_of_def
      c_min_def Let_def)

text \<open>
  C2. The claim: with \<open>count = 10\<close>, \<open>max_visible_rows = 5\<close>, \<open>offset = 0\<close> and
  \<open>highlight = 7\<close> the recompute yields \<open>offset = 3\<close> and \<open>display_count = 5\<close>, and
  \<open>display_count\<close> never exceeds \<open>max_visible_rows\<close>. The code yields \<open>offset = 3\<close> and
  \<open>display_count = 7\<close>: the arm that scrolls down to the highlight overwrites
  \<^verbatim>\<open>display_results\<close> with \<^verbatim>\<open>global.result_count - global.result_offset\<close>.
\<close>

theorem scroll_regression_display_count:
  "scroll_window (s\<lparr>s_height := 10, s_max_height := 60\<rparr>)
     (g\<lparr>result_count := 10, result_highlight := 7, result_offset := 0\<rparr>)
   = Inr (g\<lparr>result_count := 10, result_highlight := 7, result_offset := 3\<rparr>, 7)
   \<and> max_results_of (s\<lparr>s_height := 10, s_max_height := 60\<rparr>) = 5"
  by (simp add: scroll_window_def set_offset_def clamp_highlight_def max_results_of_def
      c_min_def Let_def)

text \<open>
  C8, as claimed: whenever the highlight is at or beyond the count it is clamped to
  \<open>count - 1\<close>. With no results (\<open>count = 0\<close>) and the highlight at 3, the highlight is at
  or beyond the count, yet it stays 3: in \<^verbatim>\<open>uint32_t\<close> arithmetic \<open>count - 1\<close> wraps to
  \<open>2^32 - 1\<close>, which no highlight exceeds.
\<close>

theorem clamp_highlight_empty_counterexample:
  "result_count \<lparr>result_count = 0, result_highlight = 3, result_offset = 0,
       real_font_size = 0, real_desc_font_size = 0, win_x_pos = 0,
       win_x_pos_with_desc = 0, win_y_pos = 0\<rparr>
     \<le> result_highlight \<lparr>result_count = 0, result_highlight = 3, result_offset = 0,
       real_font_size = 0, real_desc_font_size = 0, win_x_pos = 0,
       win_x_pos_with_desc = 0, win_y_pos = 0\<rparr>
   \<and> result_highlight (clamp_highlight \<lparr>result_count = 0, result_highlight = 3,
       result_offset = 0, real_font_size = 0, real_desc_font_size = 0, win_x_pos = 0,
       win_x_pos_with_desc = 0, win_y_pos = 0\<rparr>) = 3
   \<and> (3::u32) \<noteq> 0 - 1"
  by (simp add: clamp_highlight_def)

text \<open>
  C8, amended: the new highlight is \<open>min highlight (count - 1)\<close> in \<^verbatim>\<open>uint32_t\<close>
  arithmetic, and nothing else of the state changes. With at least one result, a highlight
  at or beyond the count becomes \<open>count - 1\<close> and the new highlight is below the count;
  with no result the state is left as it is. The clamp is a total function: it reports no
  error.
\<close>

theorem clamp_highlight_spec:
  "result_highlight (clamp_highlight g) = min (result_highlight g) (result_count g - 1)
   \<and> result_count (clamp_highlight g) = result_count g
   \<and> result_offset (clamp_highlight g) = result_offset g
   \<and> (result_count g \<noteq> 0 \<and> result_count g \<le> result_highlight g \<longrightarrow>
        result_highlight (clamp_highlight g) = result_count g - 1)
   \<and> (result_count g \<noteq> 0 \<longrightarrow> result_highlight (clamp_highlight g) < result_count g)
   \<and> (result_count g = 0 \<longrightarrow> clamp_highlight g = g)"
proof (intro conjI impI)
  show "result_highlight (clamp_highlight g) = min (result_highlight g) (result_count g - 1)"
    by (auto simp: clamp_highlight_def min_def)
  show "result_count (clamp_highlight g) = result_count g"
    by (simp add: clamp_highlight_def)
  show "result_offset (clamp_highlight g) = result_offset g"
    by (simp add: clamp_highlight_def)
  show "result_highlight (clamp_highlight g) = result_count g - 1"
    if "result_count g \<noteq> 0 \<and> result_count g \<le> result_highlight g"
  proof -
    from that have "unat (result_count g - 1) = unat (result_count g) - 1"
      by (simp add: unat_minus_one)
    moreover from that
    have "0 < unat (result_count g)" "unat (result_count g) \<le> unat (result_highlight g)"
      by (simp_all add: unat_gt_0 word_le_nat_alt)
    ultimately have "result_count g - 1 < result_highlight g"
      by (simp add: word_less_nat_alt)
    then show ?thesis by (simp add: clamp_highlight_def)
  qed
  show "result_highlight (clamp_highlight g) < result_count g" if "result_count g \<noteq> 0"
    using clamp_highlight_below [of g] that by (simp add: clamp_highlight_def split: if_splits)
  show "clamp_highlight g = g" if "result_count g = 0"
  proof -
    have "\<not> (0 - 1 :: u32) < result_highlight g"
      by (simp add: not_less)
    with that show ?thesis by (simp add: clamp_highlight_def)
  qed
qed

theorem clamp_highlight_spec_witness:
  "(5::u32) \<noteq> 0 \<and> (5::u32) \<le> 9
   \<and> result_highlight (clamp_highlight \<lparr>result_count = 5, result_highlight = 9,
       result_offset = 0, real_font_size = 0, real_desc_font_size = 0, win_x_pos = 0,
       win_x_pos_with_desc = 0, win_y_pos = 0\<rparr>) = 4"
  using clamp_highlight_spec [of "\<lparr>result_count = 5, result_highlight = 9,
       result_offset = 0, real_font_size = 0, real_desc_font_size = 0, win_x_pos = 0,
       win_x_pos_with_desc = 0, win_y_pos = 0\<rparr>"]
  by simp

text \<open>
  What does hold of the window. The window always ends inside the results. With at least
  one result and at least one visible row, the highlight is inside the window after the
  recompute whenever the offset on entry does not exceed the highlight on entry.
\<close>

lemma scroll_window_sum_le:
  assumes "scroll_window s g = Inr (g', d)"
  shows "unat (result_offset g') + unat d \<le> unat (result_count g)
       \<and> result_count g' = result_count g
       \<and> result_highlight g' = result_highlight (clamp_highlight g)"
proof -
  from assms have eq: "set_offset (max_results_of s) (clamp_highlight g) = (g', d)"
    by (simp add: scroll_window_def split: if_splits)
  have rc: "result_count (clamp_highlight g) = result_count g"
    by (simp add: clamp_highlight_def)
  from set_offset_sum_le [OF clamp_highlight_below, of "max_results_of s" g] eq rc
  show ?thesis by simp
qed

lemma scroll_window_invariant:
  assumes sw: "scroll_window s g = Inr (g', d)"
    and c: "result_count g \<noteq> 0" and m: "max_results_of s \<noteq> 0"
    and oh: "result_offset g \<le> result_highlight g"
  shows "result_offset g' \<le> result_highlight g'
       \<and> unat (result_highlight g') < unat (result_offset g') + unat d
       \<and> unat (result_offset g') + unat d \<le> unat (result_count g')"
proof -
  let ?g = "clamp_highlight g" and ?m = "max_results_of s"
  from sw have eq: "set_offset ?m ?g = (g', d)"
    by (simp add: scroll_window_def split: if_splits)
  have rc: "result_count ?g = result_count g" and ro: "result_offset ?g = result_offset g"
    by (simp_all add: clamp_highlight_def)
  from clamp_highlight_below [of g] c rc have h: "result_highlight ?g < result_count ?g"
    by simp
  have hu: "unat (result_highlight ?g) = min (unat (result_highlight g)) (unat (result_count g) - 1)"
    using c by (rule clamp_highlight_unat)
  have tail: "result_count ?g \<le> ?m \<or> \<not> result_count ?g - ?m < result_offset ?g
               \<or> result_count ?g - ?m \<le> result_highlight ?g"
  proof (cases "result_count g \<le> ?m")
    case True
    then show ?thesis by (simp add: rc)
  next
    case False
    then have mc: "unat ?m < unat (result_count g)"
      by (simp add: word_le_nat_alt)
    then have sub: "unat (result_count g - ?m) = unat (result_count g) - unat ?m"
      by (simp add: unat_sub word_le_nat_alt)
    from m have m0: "0 < unat ?m" by (simp add: unat_gt_0)
    show ?thesis
    proof (cases "result_count g - ?m < result_offset g")
      case True
      then have "unat (result_count g) - unat ?m < unat (result_offset g)"
        using sub by (simp add: word_less_nat_alt)
      moreover from oh have "unat (result_offset g) \<le> unat (result_highlight g)"
        by (simp add: word_le_nat_alt)
      ultimately have "unat (result_count g) - unat ?m \<le> unat (result_highlight ?g)"
        using hu m0 mc by simp
      then have "result_count g - ?m \<le> result_highlight ?g"
        using sub by (simp add: word_le_nat_alt)
      then show ?thesis by (simp add: rc)
    next
      case False
      then show ?thesis by (simp add: rc ro)
    qed
  qed
  from c rc have c': "result_count ?g \<noteq> 0" by simp
  from set_offset_keeps_highlight [OF c' m h tail] eq
  have k: "result_offset g' \<le> result_highlight ?g"
    "unat (result_highlight ?g) < unat (result_offset g') + unat d"
    by simp_all
  from scroll_window_sum_le [OF sw] k show ?thesis by simp
qed

subsection \<open>The description panel\<close>

text \<open>
  Whenever \<open>row_height * (result_count + 1)\<close> does not exceed the maximum window height,
  every result is visible and the height that \<^verbatim>\<open>draw_desc\<close> computes is the height that
  the window and the surface were resized to.
\<close>

lemma desc_height_within_cap:
  assumes h0: "s_height s \<noteq> 0"
    and fits: "unat (s_height s) * (unat (result_count g) + 1) \<le> unat (s_max_height s)"
    and sw: "scroll_window s g = Inr (g', d)"
  shows "d = result_count g
       \<and> desc_height s g' = s_height s * (d + 1)
       \<and> desc_height s g' \<le> s_max_height s
       \<and> new_height s g' = desc_height s g'"
proof -
  let ?h = "s_height s" and ?c = "result_count g" and ?M = "s_max_height s"
  from h0 have hpos: "0 < unat ?h" by (simp add: unat_gt_0)
  have "unat ?M < 2 ^ LENGTH(32)" by (rule unsigned_less)
  with fits hpos have clt: "unat ?c + 1 < 2 ^ LENGTH(32)"
  proof -
    have "1 * (unat ?c + 1) \<le> unat ?h * (unat ?c + 1)"
      using hpos by (intro mult_le_mono1) simp
    then have "unat ?c + 1 \<le> unat ?h * (unat ?c + 1)"
      by (simp only: mult_1)
    then have "unat ?c + 1 \<le> unat ?M"
      using fits by (rule order_trans)
    then show ?thesis
      using \<open>unat ?M < 2 ^ LENGTH(32)\<close> by (rule le_less_trans)
  qed
  then have c1: "unat (?c + 1) = unat ?c + 1"
    using unat_add_lem [of ?c 1] by simp
  have "unat ?h * unat (?c + 1) < 2 ^ LENGTH(32)"
    using fits c1 \<open>unat ?M < 2 ^ LENGTH(32)\<close> by simp
  then have mul: "unat (?h * (?c + 1)) = unat ?h * (unat ?c + 1)"
    using c1 by (simp add: unat_mult_lem [THEN iffD1])
  have "unat ?c + 1 \<le> unat ?M div unat ?h"
    using fits hpos by (simp add: less_eq_div_iff_mult_less_eq mult.commute)
  then have "unat ?c + 1 \<le> unat (?M div ?h)"
    by (simp add: unat_div)
  moreover from this have "?M div ?h \<noteq> 0"
    by (auto simp: unat_eq_zero [symmetric])
  then have "unat (?M div ?h - 1) = unat (?M div ?h) - 1"
    by (simp add: unat_minus_one)
  ultimately have cm: "?c \<le> max_results_of s"
    by (simp add: max_results_of_def word_le_nat_alt)
  have rc: "result_count (clamp_highlight g) = ?c"
    by (simp add: clamp_highlight_def)
  from sw h0 have eq: "set_offset (max_results_of s) (clamp_highlight g) = (g', d)"
    by (simp add: scroll_window_def)
  with cm rc have d: "d = ?c" and g': "result_count g' = ?c"
    by (auto simp: set_offset_def Let_def c_min_def)
  have le: "?h * (?c + 1) \<le> ?M"
    using mul fits by (simp add: word_le_nat_alt)
  then have "c_min (?h * (?c + 1)) ?M = ?h * (?c + 1)"
    by (auto simp: c_min_def)
  with d g' le show ?thesis
    by (simp add: desc_height_def new_height_def)
qed

text \<open>
  Beyond that the two heights differ. A picture of 200 by 200 pixels at the head of the
  description, in a panel of 300 pixels, with 10 results, rows of height 10 and a
  maximum height of 60: \<^verbatim>\<open>draw_desc\<close> has it fitted into a height of 110, and it comes out
  110 pixels high; fitted into the height of the window it would be 60 pixels high.
\<close>

lemma desc_picture_fitted_to_uncapped_height:
  "get_new_size 200 200 (300 - (482 - 480))
     (desc_height
        \<lparr>s_height = 10, s_max_height = 60, s_width = 480, s_desc_size = 300,
      s_horiz_padding = 5, s_font_size = 18, s_desc_font_size = 16, s_line_gap = 20,
      s_auto_center = 0\<rparr>
        \<lparr>result_count = 10, result_highlight = 0, result_offset = 0, real_font_size = 14,
      real_desc_font_size = 12, win_x_pos = 0, win_x_pos_with_desc = 0, win_y_pos = 0\<rparr> - 0)
     \<lparr>img_width = 0, img_height = 0\<rparr>
   = Inr \<lparr>img_width = 110, img_height = 110\<rparr>
   \<and> get_new_size 200 200 (300 - (482 - 480))
     (new_height
        \<lparr>s_height = 10, s_max_height = 60, s_width = 480, s_desc_size = 300,
      s_horiz_padding = 5, s_font_size = 18, s_desc_font_size = 16, s_line_gap = 20,
      s_auto_center = 0\<rparr>
        \<lparr>result_count = 10, result_highlight = 0, result_offset = 0, real_font_size = 14,
      real_desc_font_size = 12, win_x_pos = 0, win_x_pos_with_desc = 0, win_y_pos = 0\<rparr> - 0)
     \<lparr>img_width = 0, img_height = 0\<rparr>
   = Inr \<lparr>img_width = 60, img_height = 60\<rparr>"
  by code_simp

text \<open>
  C7. The height of the description panel is \<open>row_height * (visible_result_count + 1)\<close>,
  capped by the maximum window height. \<^verbatim>\<open>draw_desc\<close> computes
  \<open>row_height * (result_count + 1)\<close>, from the number of all the results and without the
  cap, where \<^verbatim>\<open>draw_result_text\<close>, which resizes the window and the surface right before
  it calls \<^verbatim>\<open>draw_desc\<close>, takes the minimum of the same product and the maximum window
  height. With 10 results, rows of height 10 and a maximum height of 60, five rows are
  visible, the window is resized to the height 60, and \<^verbatim>\<open>draw_desc\<close> fills the panel and
  fits its pictures to the height 110: neither \<open>10 * (5 + 1)\<close> nor at most 60.
\<close>

theorem desc_height_exceeds_cap:
  "scroll_window
     \<lparr>s_height = 10, s_max_height = 60, s_width = 480, s_desc_size = 300,
      s_horiz_padding = 5, s_font_size = 18, s_desc_font_size = 16, s_line_gap = 20,
      s_auto_center = 0\<rparr>
     \<lparr>result_count = 10, result_highlight = 0, result_offset = 0, real_font_size = 14,
      real_desc_font_size = 12, win_x_pos = 0, win_x_pos_with_desc = 0, win_y_pos = 0\<rparr>
   = Inr (\<lparr>result_count = 10, result_highlight = 0, result_offset = 0, real_font_size = 14,
      real_desc_font_size = 12, win_x_pos = 0, win_x_pos_with_desc = 0, win_y_pos = 0\<rparr>, 5)
   \<and> desc_height
     \<lparr>s_height = 10, s_max_height = 60, s_width = 480, s_desc_size = 300,
      s_horiz_padding = 5, s_font_size = 18, s_desc_font_size = 16, s_line_gap = 20,
      s_auto_center = 0\<rparr>
     \<lparr>result_count = 10, result_highlight = 0, result_offset = 0, real_font_size = 14,
      real_desc_font_size = 12, win_x_pos = 0, win_x_pos_with_desc = 0, win_y_pos = 0\<rparr>
     = 110
   \<and> new_height
     \<lparr>s_height = 10, s_max_height = 60, s_width = 480, s_desc_size = 300,
      s_horiz_padding = 5, s_font_size = 18, s_desc_font_size = 16, s_line_gap = 20,
      s_auto_center = 0\<rparr>
     \<lparr>result_count = 10, result_highlight = 0, result_offset = 0, real_font_size = 14,
      real_desc_font_size = 12, win_x_pos = 0, win_x_pos_with_desc = 0, win_y_pos = 0\<rparr>
     = 60
   \<and> 10 * (5 + 1) < (110::u32)
   \<and> (60::u32) < 110"
  by (simp add: scroll_window_def set_offset_def clamp_highlight_def max_results_of_def
      c_min_def Let_def desc_height_def new_height_def)

subsection \<open>The order of the paint calls\<close>





subsection \<open>Centred and bold runs\<close>

lemma text_modifiers_offset:
  "off_x (fst (text_modifiers ms w l (offset, weight))) =
     off_x offset + of_nat (count_list ms CENTER) * ((w - l) div 2)
   \<and> off_y (fst (text_modifiers ms w l (offset, weight))) = off_y offset
   \<and> off_image_y (fst (text_modifiers ms w l (offset, weight))) = off_image_y offset"
proof (induction ms arbitrary: offset weight)
  case Nil
  then show ?case by simp
next
  case (Cons m ms)
  then show ?case by (cases m) (simp_all add: algebra_simps)
qed

lemma text_modifiers_bold:
  "fst (text_modifiers (filter (\<lambda>m. m \<noteq> BOLD) ms) w l (offset, weight)) =
   fst (text_modifiers ms w l (offset, weight'))"
proof (induction ms arbitrary: offset weight weight')
  case Nil
  then show ?case by simp
next
  case (Cons m ms)
  then show ?case by (cases m) simp_all
qed

lemma text_modifiers_center_once:
  assumes "count_list ms CENTER = 1"
  shows "fst (text_modifiers ms w l (offset, weight)) =
         offset\<lparr>off_x := off_x offset + (w - l) div 2\<rparr>"
proof -
  from text_modifiers_offset [of ms w l offset weight] assms
  have "off_x (fst (text_modifiers ms w l (offset, weight))) = off_x offset + (w - l) div 2"
    and "off_y (fst (text_modifiers ms w l (offset, weight))) = off_y offset"
    and "off_image_y (fst (text_modifiers ms w l (offset, weight))) = off_image_y offset"
    by simp_all
  then show ?thesis
    by (cases "fst (text_modifiers ms w l (offset, weight))") simp
qed

text \<open>
  C3, as claimed: a run with the CENTER modifier, of measured width \<open>w\<close> in an available
  width \<open>W\<close>, is positioned at \<open>x = (W - w) / 2\<close>. A run of width 20 in an available width
  of 100 that starts at the offset \<open>x = 10\<close> is drawn at \<open>x = 50\<close>, not at 40: the code adds
  the displacement to the offset the run starts from.
\<close>

theorem draw_text_center_counterexample:
  "off_x (fst (snd (draw_text (\<lambda>weight text. 24)
      \<lparr>d_type = DRAW_TEXT, d_data = Some 0, data_length = 20, modifiers_array = [CENTER]\<rparr>
      ''abc'' 100 \<lparr>off_x = 10, off_y = 14, off_image_y = 0\<rparr> WEIGHT_NORMAL))) = 50
   \<and> (100 - 20) div 2 = (40::u32)"
  by (simp add: draw_text_def)

text \<open>
  C3, amended: a run that carries the CENTER modifier (once among its modifiers), of
  measured width \<open>w\<close> (the \<^verbatim>\<open>data_length\<close> of the command, measured before the call) in an
  available width \<open>W\<close>, is positioned by \<^verbatim>\<open>draw_text\<close> at \<open>x = offset.x + (W - w) / 2\<close>,
  where \<open>offset.x\<close> is the offset the run starts from; the vertical offsets are left as
  they are. The position is the same whether or not BOLD is also set: with BOLD added to
  the modifiers, and with every BOLD taken out of them.
\<close>

theorem draw_text_center:
  assumes "count_list (modifiers_array charac) CENTER = 1"
  shows "fst (snd (draw_text pw charac text W offset weight)) =
           offset\<lparr>off_x := off_x offset + (W - data_length charac) div 2\<rparr>
       \<and> fst (snd (draw_text pw (charac\<lparr>modifiers_array := BOLD # modifiers_array charac\<rparr>)
                      text W offset weight)) =
           offset\<lparr>off_x := off_x offset + (W - data_length charac) div 2\<rparr>
       \<and> fst (snd (draw_text pw
                      (charac\<lparr>modifiers_array := filter (\<lambda>m. m \<noteq> BOLD) (modifiers_array charac)\<rparr>)
                      text W offset weight)) =
           offset\<lparr>off_x := off_x offset + (W - data_length charac) div 2\<rparr>"
proof -
  let ?ms = "modifiers_array charac" and ?l = "data_length charac"
  have plain: "fst (text_modifiers ?ms W ?l (offset, v)) =
      offset\<lparr>off_x := off_x offset + (W - ?l) div 2\<rparr>" for v
    using assms by (rule text_modifiers_center_once)
  have "fst (text_modifiers (BOLD # ?ms) W ?l (offset, weight)) =
      fst (text_modifiers ?ms W ?l (offset, WEIGHT_BOLD))"
    by simp
  then have bold: "fst (text_modifiers (BOLD # ?ms) W ?l (offset, weight)) =
      offset\<lparr>off_x := off_x offset + (W - ?l) div 2\<rparr>"
    by (simp only: plain)
  have "fst (text_modifiers (filter (\<lambda>m. m \<noteq> BOLD) ?ms) W ?l (offset, weight)) =
      fst (text_modifiers ?ms W ?l (offset, weight))"
    by (rule text_modifiers_bold)
  then have nobold: "fst (text_modifiers (filter (\<lambda>m. m \<noteq> BOLD) ?ms) W ?l (offset, weight)) =
      offset\<lparr>off_x := off_x offset + (W - ?l) div 2\<rparr>"
    by (simp only: plain)
  show ?thesis
    using plain [of weight] bold nobold by (simp add: draw_text_def split_beta)
qed

theorem draw_text_center_witness:
  "count_list [BOLD, CENTER] CENTER = 1
   \<and> fst (snd (draw_text (\<lambda>weight text. 24)
      \<lparr>d_type = DRAW_TEXT, d_data = Some 0, data_length = 20, modifiers_array = [BOLD, CENTER]\<rparr>
      ''abc'' 100 \<lparr>off_x = 10, off_y = 14, off_image_y = 0\<rparr> WEIGHT_NORMAL)) =
     \<lparr>off_x = 50, off_y = 14, off_image_y = 0\<rparr>"
  using draw_text_center [of
      "\<lparr>d_type = DRAW_TEXT, d_data = Some 0, data_length = 20, modifiers_array = [BOLD, CENTER]\<rparr>"
      "\<lambda>weight text. 24" "''abc''" 100 "\<lparr>off_x = 10, off_y = 14, off_image_y = 0\<rparr>" WEIGHT_NORMAL]
  by simp

text \<open>
  The build without Pango does not compute this position: it subtracts the starting
  offset before halving, so the run of the example above is drawn at \<open>x = 45\<close>.
\<close>

lemma draw_text_no_pango_center:
  "snd (draw_text_no_pango adv (charac\<lparr>modifiers_array := [CENTER]\<rparr>) text W offset) =
     offset\<lparr>off_x := off_x offset + (W - off_x offset - data_length charac) div 2\<rparr>"
  by (simp add: draw_text_no_pango_def)

lemma draw_text_no_pango_example:
  "off_x (snd (draw_text_no_pango (\<lambda>text. 24)
      \<lparr>d_type = DRAW_TEXT, d_data = Some 0, data_length = 20, modifiers_array = [CENTER]\<rparr>
      ''abc'' 100 \<lparr>off_x = 10, off_y = 14, off_image_y = 0\<rparr>)) = 45"
  by (simp add: draw_text_no_pango_def)

subsection \<open>A picture that fits\<close>

text \<open>
  A picture that fits leaves \<^verbatim>\<open>*format\<close> as \<^verbatim>\<open>get_new_size\<close> found it; \<^verbatim>\<open>draw_png\<close> has
  stored the natural size there before, \<^verbatim>\<open>draw_image\<close> the size \<^verbatim>\<open>{0, 0}\<close>.
\<close>

lemma get_new_size_fits:
  "\<not> win_size_x < w \<Longrightarrow> \<not> win_size_y < h \<Longrightarrow> get_new_size w h win_size_x win_size_y format = Inr format"
  by (simp add: get_new_size_def)

lemma draw_image_with_gdk_fits:
  assumes "pixbuf_size env path = Some (w, h)" "w \<le> win_size_x" "h \<le> win_size_y"
  shows "\<exists>offset'. draw_image_with_gdk env path mods offset win_size_x win_size_y format = Inr (offset', format)"
proof -
  from assms have "\<not> win_size_x < w" "\<not> win_size_y < h" by simp_all
  with assms(1) show ?thesis by (simp add: draw_image_with_gdk_def get_new_size_def)
qed

lemma draw_png_fits:
  assumes "png_size env path = (w, h)" "w \<le> win_size_x" "h \<le> win_size_y"
  shows "\<exists>offset'. draw_png env path mods offset win_size_x win_size_y =
     Inr (offset', \<lparr>img_width = w, img_height = h\<rparr>)"
proof -
  from assms have "\<not> win_size_x < w" "\<not> win_size_y < h" by simp_all
  with assms(1) show ?thesis by (simp add: draw_png_def)
qed

text \<open>
  C4. The claim: a picture whose natural size fits the available rectangle keeps its
  natural size as the target size. In the default build it does not: for a PNG of 10 by 10
  in a rectangle of 100 by 100, \<^verbatim>\<open>get_new_size\<close> leaves \<^verbatim>\<open>format\<close> untouched, and
  \<^verbatim>\<open>draw_image\<close> had initialised it to \<^verbatim>\<open>{0, 0}\<close>: the target size is 0 by 0 (the size
  \<^verbatim>\<open>gdk_pixbuf_scale_simple\<close> is then called with, and the advance the caller adds). The
  build without GDK, which sets \<^verbatim>\<open>format\<close> to the natural size first, gives 10 by 10.
\<close>

theorem draw_image_small_picture_zero_format:
  "draw_image
     \<lparr>wordexp = (\<lambda>p. Some p), file_exists = (\<lambda>p. True), fopen_fgetc = (\<lambda>p. Some 137),
      pixbuf_size = (\<lambda>p. Some (10, 10)), png_size = (\<lambda>p. (10, 10))\<rparr>
     ''icon.png'' [] \<lparr>off_x = 5, off_y = 24, off_image_y = 10\<rparr> 100 100
   = Inr \<lparr>img_width = 0, img_height = 0\<rparr>
   \<and> draw_image_no_gdk
     \<lparr>wordexp = (\<lambda>p. Some p), file_exists = (\<lambda>p. True), fopen_fgetc = (\<lambda>p. Some 137),
      pixbuf_size = (\<lambda>p. Some (10, 10)), png_size = (\<lambda>p. (10, 10))\<rparr>
     ''icon.png'' [] \<lparr>off_x = 5, off_y = 24, off_image_y = 10\<rparr> 100 100
   = Inr \<lparr>img_width = 10, img_height = 10\<rparr>"
  by (simp add: draw_image_def draw_image_no_gdk_def expand_path_def draw_image_with_gdk_def
      get_new_size_def draw_png_def)

subsection \<open>A picture that cannot be loaded\<close>

lemma draw_image_failure:
  assumes "\<not> file_exists env (expand_path env data)
     \<or> (\<exists>b. fopen_fgetc env (expand_path env data) = Some b \<and>
           ((b \<noteq> 137 \<and> b \<noteq> 255 \<and> b \<noteq> 47) \<or> pixbuf_size env (expand_path env data) = None))"
  shows "draw_image env data mods offset win_size_x win_size_y = Inr \<lparr>img_width = 0, img_height = 0\<rparr>"
  using assms by (auto simp: draw_image_def draw_image_with_gdk_def)

text \<open>
  The failures that \<^verbatim>\<open>draw_image\<close> handles: the file of an image command does not exist
  (\<^verbatim>\<open>access\<close> fails on the expanded path), or its first byte selects no decoder, or the
  decoder reports an error. \<^verbatim>\<open>draw_image\<close> then returns the format \<^verbatim>\<open>{0, 0}\<close>; the turn of
  the loop of \<^verbatim>\<open>draw_line\<close> that drew the command goes on to the next turn with the offset,
  the weight and the buffer as they were, and \<^verbatim>\<open>c\<close> behind the command; in \<^verbatim>\<open>draw_desc\<close> the
  command adds zero to \<open>x\<close> as well.
\<close>

lemma draw_image_failure_zero_advance:
  assumes parse: "parse_result_line env (st_parser st) (text_buf st) c
                    (s_width s - off_x (st_offset st)) = (d, Some k, ps')"
    and img: "d_type d = DRAW_IMAGE" "d_data d = Some p"
    and inb: "k < length (text_buf st)" "p < length (text_buf st)"
    and path: "path = expand_path (images env) (c_string ((text_buf st)[k := CHR 0x00]) p)"
    and fail: "\<not> file_exists (images env) path
     \<or> (\<exists>b. fopen_fgetc (images env) path = Some b \<and>
           ((b \<noteq> 137 \<and> b \<noteq> 255 \<and> b \<noteq> 47) \<or> pixbuf_size (images env) path = None))"
  shows "draw_image (images env) (c_string ((text_buf st)[k := CHR 0x00]) p) (modifiers_array d)
           (st_offset st) (s_width s - off_x (st_offset st)) (s_height s)
         = Inr \<lparr>img_width = 0, img_height = 0\<rparr>
       \<and> draw_line_body env s st c = Inr (Continue (st\<lparr>st_cur := Some k, st_parser := ps'\<rparr>))
       \<and> draw_desc_command env s g d ((text_buf st)[k := CHR 0x00]) offset weight
         = Inr (\<lparr>off_x = off_x offset, off_y = off_image_y offset,
                  off_image_y = off_image_y offset\<rparr>, weight)"
proof -
  have z: "draw_image (images env) (c_string ((text_buf st)[k := CHR 0x00]) p) mods off wx wy
         = Inr \<lparr>img_width = 0, img_height = 0\<rparr>" for mods off wx wy
    using fail unfolding path by (rule draw_image_failure)
  have "draw_line_body env s st c = Inr (Continue (st\<lparr>st_cur := Some k, st_parser := ps'\<rparr>))"
    using parse img inb by (simp add: draw_line_body_def draw_line_command_def z)
  moreover have "draw_desc_command env s g d ((text_buf st)[k := CHR 0x00]) offset weight
         = Inr (\<lparr>off_x = off_x offset, off_y = off_image_y offset,
                  off_image_y = off_image_y offset\<rparr>, weight)"
    using img inb by (simp add: draw_desc_command_def z)
  ultimately show ?thesis using z by simp
qed

lemma draw_line_loop_skips_failed_image:
  assumes cur: "st_cur st = Some c" "c < length (text_buf st)" "text_buf st ! c \<noteq> CHR 0x00"
    and parse: "parse_result_line env (st_parser st) (text_buf st) c
                    (s_width s - off_x (st_offset st)) = (d, Some k, ps')"
    and img: "d_type d = DRAW_IMAGE" "d_data d = Some p"
    and inb: "k < length (text_buf st)" "p < length (text_buf st)"
    and fail: "\<not> file_exists (images env)
                  (expand_path (images env) (c_string ((text_buf st)[k := CHR 0x00]) p))
     \<or> (\<exists>b. fopen_fgetc (images env)
                  (expand_path (images env) (c_string ((text_buf st)[k := CHR 0x00]) p)) = Some b \<and>
           ((b \<noteq> 137 \<and> b \<noteq> 255 \<and> b \<noteq> 47)
            \<or> pixbuf_size (images env)
                  (expand_path (images env) (c_string ((text_buf st)[k := CHR 0x00]) p)) = None))"
  shows "draw_line_loop (Suc n) env s st =
         draw_line_loop n env s (st\<lparr>st_cur := Some k, st_parser := ps'\<rparr>)"
proof -
  have "draw_line_body env s st c = Inr (Continue (st\<lparr>st_cur := Some k, st_parser := ps'\<rparr>))"
    using draw_image_failure_zero_advance [OF parse img inb refl fail] by simp
  then show ?thesis
    using cur by simp
qed

text \<open>
  C6. An image command whose file cannot be located or decoded makes \<^verbatim>\<open>draw_image\<close> return
  \<^verbatim>\<open>{0, 0}\<close> without aborting the paint, and the loop of the row goes on. \<^verbatim>\<open>draw_image\<close>
  tests \<^verbatim>\<open>access(path, F_OK)\<close> and not the result of \<^verbatim>\<open>fopen\<close>: for a file that exists and
  that \<^verbatim>\<open>fopen\<close> cannot open (one the user may not read, say), \<^verbatim>\<open>fgetc\<close> is called on the
  null stream. On the row \<^verbatim>\<open>xy\<close>, whose first command is the image \<^verbatim>\<open>x\<close>, \<^verbatim>\<open>draw_image\<close>
  returns no format and \<^verbatim>\<open>draw_line\<close> ends in the fault, whatever the fuel, with the
  command behind the image not drawn.
\<close>

theorem draw_line_unreadable_image_faults:
  "draw_image
       \<lparr>wordexp = (\<lambda>p. None), file_exists = (\<lambda>p. True),
          fopen_fgetc = (\<lambda>p. None), pixbuf_size = (\<lambda>p. None), png_size = (\<lambda>p. (0, 0))\<rparr>
       ''x'' [] \<lparr>off_x = 5, off_y = 24, off_image_y = 10\<rparr> 475 10
     = Inl Null_Deref
   \<and> draw_line (Suc n)
       \<lparr>parse_result_line = (\<lambda>ps buf c w.
           (\<lparr>d_type = DRAW_IMAGE, d_data = Some c, data_length = 0, modifiers_array = []\<rparr>,
            Some (Suc c), ps)),
        pixel_width = (\<lambda>weight text. 8),
        images = \<lparr>wordexp = (\<lambda>p. None), file_exists = (\<lambda>p. True),
          fopen_fgetc = (\<lambda>p. None), pixbuf_size = (\<lambda>p. None), png_size = (\<lambda>p. (0, 0))\<rparr>\<rparr>
       \<lparr>s_height = 10, s_max_height = 60, s_width = 480, s_desc_size = 300,
        s_horiz_padding = 5, s_font_size = 18, s_desc_font_size = 16, s_line_gap = 20,
        s_auto_center = 0\<rparr>
       \<lparr>result_count = 3, result_highlight = 0, result_offset = 0, real_font_size = 14,
        real_desc_font_size = 12, win_x_pos = 0, win_x_pos_with_desc = 0, win_y_pos = 0\<rparr>
       () [CHR ''x'', CHR ''y'', CHR 0x00] 1
     = Some (Inl Null_Deref)"
  by (simp add: draw_image_def expand_path_def draw_line_def draw_line_body_def
      draw_line_command_def c_string_def)

subsection \<open>The text buffer\<close>

lemma restore_byte: "k < length buf \<Longrightarrow> (buf[k := b])[k := buf ! k] = buf"
  by simp

lemma draw_typed_line_text_frame:
  "unat cursor < length text \<Longrightarrow>
   draw_typed_line_text text cursor = Inr (text, c_string (text[unat cursor := CHR 0x00]) 0)"
  by (simp add: draw_typed_line_text_def)

lemma draw_line_body_frame:
  assumes "draw_line_body env s st c = Inr r"
  shows "text_buf (case r of Continue st' \<Rightarrow> st' | Break st' \<Rightarrow> st') = text_buf st"
  using assms
  by (auto simp: draw_line_body_def split: prod.splits option.splits if_splits sum.splits)

lemma draw_desc_body_frame:
  assumes "draw_desc_body env s g st c = Inr st'"
  shows "text_buf st' = text_buf st"
  using assms
  by (auto simp: draw_desc_body_def split: prod.splits option.splits if_splits sum.splits)

lemma draw_line_loop_frame:
  "draw_line_loop n env s st = Some (Inr st') \<Longrightarrow> text_buf st' = text_buf st"
proof (induction n arbitrary: st)
  case 0
  then show ?case by simp
next
  case (Suc n)
  show ?case
  proof (cases "st_cur st")
    case None
    with Suc.prems show ?thesis by simp
  next
    case (Some c)
    show ?thesis
    proof (cases "length (text_buf st) \<le> c \<or> text_buf st ! c = CHR 0x00")
      case True
      with Suc.prems Some show ?thesis by (auto split: if_splits)
    next
      case False
      show ?thesis
      proof (cases "draw_line_body env s st c")
        case (Inl e)
        with Suc.prems Some False show ?thesis by simp
      next
        case (Inr r)
        note body = draw_line_body_frame [OF Inr]
        show ?thesis
        proof (cases r)
          case (Continue st1)
          with Suc.prems Some False Inr have "draw_line_loop n env s st1 = Some (Inr st')"
            by simp
          from Suc.IH [OF this] body Continue show ?thesis by simp
        next
          case (Break st1)
          with Suc.prems Some False Inr body show ?thesis by simp
        qed
      qed
    qed
  qed
qed

lemma draw_desc_loop_frame:
  "draw_desc_loop n env s g st = Some (Inr st') \<Longrightarrow> text_buf st' = text_buf st"
proof (induction n arbitrary: st)
  case 0
  then show ?case by simp
next
  case (Suc n)
  show ?case
  proof (cases "st_cur st")
    case None
    with Suc.prems show ?thesis by simp
  next
    case (Some c)
    show ?thesis
    proof (cases "length (text_buf st) \<le> c \<or> text_buf st ! c = CHR 0x00")
      case True
      with Suc.prems Some show ?thesis by (auto split: if_splits)
    next
      case False
      show ?thesis
      proof (cases "draw_desc_body env s g st c")
        case (Inl e)
        with Suc.prems Some False show ?thesis by simp
      next
        case (Inr st1)
        with Suc.prems Some False have "draw_desc_loop n env s g st1 = Some (Inr st')"
          by simp
        from Suc.IH [OF this] draw_desc_body_frame [OF Inr] show ?thesis by simp
      qed
    qed
  qed
qed

lemma draw_line_body_advances:
  assumes adv: "\<forall>ps buf c w. c < length buf \<longrightarrow>
            (case fst (snd (parse_result_line env ps buf c w)) of None \<Rightarrow> True | Some k \<Rightarrow> c < k)"
    and c: "c < length (text_buf st)"
    and body: "draw_line_body env s st c = Inr (Continue st')"
  shows "\<exists>k. st_cur st' = Some k \<and> c < k \<and> k < length (text_buf st') \<and> text_buf st' = text_buf st"
proof -
  obtain d c' ps' where p: "parse_result_line env (st_parser st) (text_buf st) c
      (s_width s - off_x (st_offset st)) = (d, c', ps')"
    by (cases "parse_result_line env (st_parser st) (text_buf st) c (s_width s - off_x (st_offset st))")
  from adv c p have a: "case c' of None \<Rightarrow> True | Some k \<Rightarrow> c < k"
    by (metis fst_conv snd_conv)
  from body p a show ?thesis
    by (auto simp: draw_line_body_def split: option.splits if_splits sum.splits prod.splits)
qed

lemma draw_desc_body_advances:
  assumes adv: "\<forall>ps buf c w. c < length buf \<longrightarrow>
            (case fst (snd (parse_result_line env ps buf c w)) of None \<Rightarrow> True | Some k \<Rightarrow> c < k)"
    and c: "c < length (text_buf st)"
    and body: "draw_desc_body env s g st c = Inr st'"
  shows "\<exists>k. st_cur st' = Some k \<and> c < k \<and> k < length (text_buf st') \<and> text_buf st' = text_buf st"
proof -
  obtain d c' ps' where p: "parse_result_line env (st_parser st) (text_buf st) c
      (s_desc_size s + s_width s - off_x (st_offset st)) = (d, c', ps')"
    by (cases "parse_result_line env (st_parser st) (text_buf st) c
           (s_desc_size s + s_width s - off_x (st_offset st))")
  from adv c p have a: "case c' of None \<Rightarrow> True | Some k \<Rightarrow> c < k"
    by (metis fst_conv snd_conv)
  from body p a show ?thesis
    by (auto simp: draw_desc_body_def split: option.splits if_splits sum.splits prod.splits)
qed

lemma draw_line_loop_fuel:
  assumes adv: "\<forall>ps buf c w. c < length buf \<longrightarrow>
            (case fst (snd (parse_result_line env ps buf c w)) of None \<Rightarrow> True | Some k \<Rightarrow> c < k)"
  shows "st_cur st = Some c \<Longrightarrow> length (text_buf st) - c < n \<Longrightarrow> draw_line_loop n env s st \<noteq> None"
proof (induction n arbitrary: st c)
  case 0
  then show ?case by simp
next
  case (Suc n)
  show ?case
  proof (cases "length (text_buf st) \<le> c \<or> text_buf st ! c = CHR 0x00")
    case True
    with Suc.prems show ?thesis by auto
  next
    case False
    then have c: "c < length (text_buf st)" by simp
    show ?thesis
    proof (cases "draw_line_body env s st c")
      case (Inl e)
      with Suc.prems False show ?thesis by simp
    next
      case (Inr r)
      show ?thesis
      proof (cases r)
        case (Break st1)
        with Suc.prems False Inr show ?thesis by simp
      next
        case (Continue st1)
        with Inr have "draw_line_body env s st c = Inr (Continue st1)" by simp
        from draw_line_body_advances [OF adv c this]
        obtain k where k: "st_cur st1 = Some k" "c < k" "k < length (text_buf st1)"
          "text_buf st1 = text_buf st" by blast
        with Suc.prems have "length (text_buf st1) - k < n" by simp
        from Suc.IH [OF k(1) this] Suc.prems False Inr Continue show ?thesis by simp
      qed
    qed
  qed
qed

lemma draw_desc_loop_fuel:
  assumes adv: "\<forall>ps buf c w. c < length buf \<longrightarrow>
            (case fst (snd (parse_result_line env ps buf c w)) of None \<Rightarrow> True | Some k \<Rightarrow> c < k)"
  shows "st_cur st = Some c \<Longrightarrow> length (text_buf st) - c < n \<Longrightarrow> draw_desc_loop n env s g st \<noteq> None"
proof (induction n arbitrary: st c)
  case 0
  then show ?case by simp
next
  case (Suc n)
  show ?case
  proof (cases "length (text_buf st) \<le> c \<or> text_buf st ! c = CHR 0x00")
    case True
    with Suc.prems show ?thesis by auto
  next
    case False
    then have c: "c < length (text_buf st)" by simp
    show ?thesis
    proof (cases "draw_desc_body env s g st c")
      case (Inl e)
      with Suc.prems False show ?thesis by simp
    next
      case (Inr st1)
      from draw_desc_body_advances [OF adv c Inr]
      obtain k where k: "st_cur st1 = Some k" "c < k" "k < length (text_buf st1)"
        "text_buf st1 = text_buf st" by blast
      with Suc.prems have "length (text_buf st1) - k < n" by simp
      from Suc.IH [OF k(1) this] Suc.prems False Inr show ?thesis by simp
    qed
  qed
qed

text \<open>
  C10. Every painter that writes a terminator into the text restores the byte it saved:
  \<^verbatim>\<open>draw_typed_line\<close>, with the cursor inside the buffer, returns with the buffer as it was
  (after measuring the text cut at the cursor); every run of \<^verbatim>\<open>draw_line\<close> and of
  \<^verbatim>\<open>draw_desc\<close> that returns leaves the buffer as it was. When the interpreter moves
  \<^verbatim>\<open>c\<close> forward at every call, both loops do end: fuel for one turn per byte suffices.
\<close>

theorem text_buffer_restored:
  assumes adv: "\<forall>ps buf c w. c < length buf \<longrightarrow>
            (case fst (snd (parse_result_line env ps buf c w)) of None \<Rightarrow> True | Some k \<Rightarrow> c < k)"
  shows "(unat cursor < length text \<longrightarrow>
            draw_typed_line_text text cursor =
              Inr (text, c_string (text[unat cursor := CHR 0x00]) 0))
       \<and> draw_line (Suc (length text)) env s g p0 text line \<noteq> None
       \<and> draw_desc (Suc (length text)) env s g p0 text \<noteq> None
       \<and> (\<forall>n st'. draw_line n env s g p0 text line = Some (Inr st') \<longrightarrow> text_buf st' = text)
       \<and> (\<forall>n st'. draw_desc n env s g p0 text = Some (Inr st') \<longrightarrow> text_buf st' = text)"
proof (intro conjI allI impI)
  show "draw_typed_line_text text cursor = Inr (text, c_string (text[unat cursor := CHR 0x00]) 0)"
    if "unat cursor < length text"
    using that by (rule draw_typed_line_text_frame)
  show "draw_line (Suc (length text)) env s g p0 text line \<noteq> None"
    unfolding draw_line_def by (rule draw_line_loop_fuel [OF adv, where c = 0]) simp_all
  show "draw_desc (Suc (length text)) env s g p0 text \<noteq> None"
    unfolding draw_desc_def by (rule draw_desc_loop_fuel [OF adv, where c = 0]) simp_all
  show "text_buf st' = text" if "draw_line n env s g p0 text line = Some (Inr st')" for n st'
    using draw_line_loop_frame [OF that [unfolded draw_line_def]] by simp
  show "text_buf st' = text" if "draw_desc n env s g p0 text = Some (Inr st')" for n st'
    using draw_desc_loop_frame [OF that [unfolded draw_desc_def]] by simp
qed

theorem text_buffer_restored_witness:
  "draw_typed_line_text [CHR ''a'', CHR ''b'', CHR 0x00] 1 =
     Inr ([CHR ''a'', CHR ''b'', CHR 0x00], [CHR ''a''])
   \<and> draw_line 4
       \<lparr>parse_result_line = (\<lambda>ps buf c w.
           (\<lparr>d_type = DRAW_TEXT, d_data = Some c, data_length = 8, modifiers_array = []\<rparr>,
            Some (Suc c), ps)),
        pixel_width = (\<lambda>weight text. 8),
        images = \<lparr>wordexp = (\<lambda>p. Some p), file_exists = (\<lambda>p. False),
          fopen_fgetc = (\<lambda>p. None), pixbuf_size = (\<lambda>p. None), png_size = (\<lambda>p. (0, 0))\<rparr>\<rparr>
       \<lparr>s_height = 10, s_max_height = 60, s_width = 480, s_desc_size = 300,
        s_horiz_padding = 5, s_font_size = 18, s_desc_font_size = 16, s_line_gap = 20,
        s_auto_center = 0\<rparr>
       \<lparr>result_count = 3, result_highlight = 1, result_offset = 0, real_font_size = 14,
        real_desc_font_size = 12, win_x_pos = 0, win_x_pos_with_desc = 0, win_y_pos = 0\<rparr>
       () [CHR ''a'', CHR ''b'', CHR 0x00] 1
     = Some (Inr \<lparr>text_buf = [CHR ''a'', CHR ''b'', CHR 0x00], st_cur = Some 2,
         st_offset = \<lparr>off_x = 21, off_y = 24, off_image_y = 10\<rparr>, st_parser = (),
         st_weight = WEIGHT_NORMAL\<rparr>)"
proof -
  let ?env = "\<lparr>parse_result_line = (\<lambda>(ps::unit) (buf::string) (c::nat) (w::u32).
           (\<lparr>d_type = DRAW_TEXT, d_data = Some c, data_length = 8, modifiers_array = []\<rparr>,
            Some (Suc c), ps)),
        pixel_width = (\<lambda>weight text. 8),
        images = \<lparr>wordexp = (\<lambda>p. Some p), file_exists = (\<lambda>p. False),
          fopen_fgetc = (\<lambda>p. None), pixbuf_size = (\<lambda>p. None), png_size = (\<lambda>p. (0, 0))\<rparr>\<rparr>"
  have adv: "\<forall>ps buf c w. c < length buf \<longrightarrow>
      (case fst (snd (parse_result_line ?env ps buf c w)) of None \<Rightarrow> True | Some k \<Rightarrow> c < k)"
    by simp
  from text_buffer_restored [OF adv, of 1 "[CHR ''a'', CHR ''b'', CHR 0x00]"]
  show ?thesis
    by (simp add: draw_line_def draw_line_body_def draw_line_command_def draw_text_def
        calculate_line_offset_def c_string_def draw_typed_line_text_def numeral_eq_Suc)
qed

subsection \<open>Single-precision rounding\<close>

text \<open>
  The error of one rounding is at most \<open>2^-24\<close> of the value: \<open>ilog2\<close> finds a power of two
  that does not exceed the value, and the nearest multiple of \<open>2^(e-23)\<close> is at most half
  of it away.
\<close>

lemma pow2_powi: "pow2 e = 2 powi e"
  by (simp add: pow2_def power_int_def inverse_eq_divide power_one_over)

lemma pow2_pos: "0 < pow2 e"
  by (simp add: pow2_powi)

lemma pow2_shift: "pow2 (e - 23) = pow2 e / 2 ^ 23"
  using power_int_diff [of "2::rat" e 23] by (simp add: pow2_powi)

lemma floorlog_pos: "0 < n \<Longrightarrow> 0 < floorlog 2 n"
  by (simp add: floorlog_def)

lemma pow2_nat: "pow2 (int j) = 2 ^ j"
  by (simp add: pow2_def)

lemma ilog2_lower_ge1:
  assumes True: "1 \<le> x"
  shows "pow2 (ilog2 x) \<le> x"
proof -
  define n where "n = nat \<lfloor>x\<rfloor>"
  from True have n: "0 < n" "of_nat n \<le> x"
    by (simp_all add: n_def)
  from floorlog_pos [OF n(1)] obtain j where j: "floorlog 2 n = Suc j"
    by (auto simp: gr0_conv_Suc)
  from floorlog_bounds [of n 2] n j have b: "2 ^ j \<le> n" by simp
  have "ilog2 x = int (Suc j) - 1"
    using True j by (simp add: ilog2_def n_def)
  then have "ilog2 x = int j" by simp
  then have "pow2 (ilog2 x) = 2 ^ j" by (simp only: pow2_nat)
  also have "\<dots> = of_nat (2 ^ j)" by simp
  also have "\<dots> \<le> of_nat n" using b by (simp only: of_nat_le_iff)
  also note n(2)
  finally show ?thesis .
qed

lemma ilog2_lower_lt1:
  assumes x: "0 < x" "x < 1"
  shows "pow2 (ilog2 x) \<le> x"
proof -
  define N where "N = \<lceil>1 / x\<rceil>"
  define k where "k = floorlog 2 (nat (N - 1))"
  from x have "1 < 1 / x" by simp
  then have N2: "2 \<le> N" unfolding N_def by linarith
  then have m: "0 < nat (N - 1)" by simp
  from floorlog_bounds [of "nat (N - 1)" 2] m have "nat (N - 1) < 2 ^ k"
    by (simp add: k_def)
  then have "N - 1 < 2 ^ k" using N2 by (simp add: nat_less_iff)
  then have "N \<le> 2 ^ k" by simp
  then have "(of_int N :: rat) \<le> of_int (2 ^ k)"
    by (simp only: of_int_le_iff)
  then have "(of_int N :: rat) \<le> 2 ^ k" by simp
  moreover have "1 / x \<le> of_int N" unfolding N_def by (rule le_of_int_ceiling)
  ultimately have "1 / x \<le> 2 ^ k" by (rule order_trans [rotated])
  then have le: "1 / 2 ^ k \<le> x" using x
    by (simp add: field_simps)
  from m have "0 < k" unfolding k_def by (rule floorlog_pos)
  then have "pow2 (- int k) = 1 / 2 ^ k" by (simp add: pow2_def)
  moreover have "ilog2 x = - int k" using x by (simp add: ilog2_def k_def N_def)
  ultimately show ?thesis using le by simp
qed

lemma ilog2_lower: "0 < x \<Longrightarrow> pow2 (ilog2 x) \<le> x"
  by (cases "1 \<le> x") (simp_all add: ilog2_lower_ge1 ilog2_lower_lt1)

lemma round_even_err: "\<bar>of_int (round_even q) - q\<bar> \<le> 1 / 2"
proof -
  define r where "r = q - of_int \<lfloor>q\<rfloor>"
  have r: "0 \<le> r" "r < 1" unfolding r_def by linarith+
  have d: "of_int (round_even q) - q =
      (if r < 1 / 2 then - r else if 1 / 2 < r then 1 - r
       else if even \<lfloor>q\<rfloor> then - r else 1 - r)"
    by (simp add: round_even_def r_def)
  show ?thesis unfolding d using r by (simp add: abs_if)
qed

lemma f32_round_err:
  assumes "0 \<le> x"
  shows "\<bar>f32_round x - x\<bar> \<le> x / 2 ^ 24"
proof (cases "x = 0")
  case True
  then show ?thesis by (simp add: f32_round_def)
next
  case False
  with assms have x: "0 < x" by simp
  define s where "s = pow2 (ilog2 x - 23)"
  have s: "0 < s" unfolding s_def by (rule pow2_pos)
  have s2: "s * 2 ^ 23 = pow2 (ilog2 x)" unfolding s_def by (simp add: pow2_shift)
  have f: "f32_round x = of_int (round_even (x / s)) * s"
    using x by (simp add: f32_round_def s_def)
  have "f32_round x - x = (of_int (round_even (x / s)) - x / s) * s"
    using s by (simp add: f field_simps)
  then have "\<bar>f32_round x - x\<bar> = \<bar>of_int (round_even (x / s)) - x / s\<bar> * s"
    using s by (simp add: abs_mult)
  also have "\<dots> \<le> 1 / 2 * s"
    using round_even_err [of "x / s"] s by (intro mult_right_mono) simp_all
  also have "\<dots> = pow2 (ilog2 x) / 2 ^ 24"
    using s2 [symmetric] by simp
  also have "\<dots> \<le> x / 2 ^ 24"
    using ilog2_lower [OF x] by (simp add: divide_right_mono)
  finally show ?thesis .
qed

lemma f32_round_upper: "0 \<le> x \<Longrightarrow> f32_round x \<le> x * (1 + 1 / 2 ^ 24)"
proof -
  assume "0 \<le> x"
  then have "\<bar>f32_round x - x\<bar> \<le> x / 2 ^ 24" by (rule f32_round_err)
  moreover have "x * (1 + 1 / 2 ^ 24) = x + x / 2 ^ 24" by (simp add: algebra_simps)
  ultimately show ?thesis by linarith
qed

lemma f32_round_lower: "0 \<le> x \<Longrightarrow> x * (1 - 1 / 2 ^ 24) \<le> f32_round x"
proof -
  assume "0 \<le> x"
  then have "\<bar>f32_round x - x\<bar> \<le> x / 2 ^ 24" by (rule f32_round_err)
  moreover have "x * (1 - 1 / 2 ^ 24) = x - x / 2 ^ 24" by (simp add: algebra_simps)
  ultimately show ?thesis by linarith
qed

lemma f32_round_nonneg: "0 \<le> x \<Longrightarrow> 0 \<le> f32_round x"
proof -
  assume x: "0 \<le> x"
  then have "0 \<le> x * (1 - 1 / 2 ^ 24)" by (intro mult_nonneg_nonneg) simp_all
  also have "\<dots> \<le> f32_round x" using x by (rule f32_round_lower)
  finally show ?thesis .
qed

lemma f32_round_pos: "0 < x \<Longrightarrow> 0 < f32_round x"
proof -
  assume x: "0 < x"
  then have "0 < x * (1 - 1 / 2 ^ 24)" by (intro mult_pos_pos) simp_all
  also have "\<dots> \<le> f32_round x" using x by (intro f32_round_lower) simp
  finally show ?thesis .
qed

text \<open>
  The rounding is the one of a 24-bit significand: \<open>ilog2\<close> is the exponent of the binade,
  and an integer below \<open>2^24\<close> is a value of the format, which the rounding keeps.
\<close>

lemma ilog2_upper:
  assumes "0 < x"
  shows "x < pow2 (ilog2 x + 1)"
proof (cases "1 \<le> x")
  case True
  define n where "n = nat \<lfloor>x\<rfloor>"
  from True have n: "0 < n" "int n = \<lfloor>x\<rfloor>"
    by (simp_all add: n_def)
  from floorlog_bounds [of n 2] n have b: "n < 2 ^ floorlog 2 n" by simp
  have "ilog2 x + 1 = int (floorlog 2 n)"
    using True by (simp add: ilog2_def n_def)
  then have p: "pow2 (ilog2 x + 1) = 2 ^ floorlog 2 n" by (simp only: pow2_nat)
  from b have "int n + 1 \<le> 2 ^ floorlog 2 n"
    by (metis Suc_leI of_nat_Suc of_nat_le_iff of_nat_numeral of_nat_power add.commute plus_1_eq_Suc)
  then have "\<lfloor>x\<rfloor> + 1 \<le> 2 ^ floorlog 2 n" using n(2) by simp
  then have "(of_int (\<lfloor>x\<rfloor> + 1) :: rat) \<le> of_int (2 ^ floorlog 2 n)"
    by (simp only: of_int_le_iff)
  then have "of_int \<lfloor>x\<rfloor> + 1 \<le> (2 :: rat) ^ floorlog 2 n" by simp
  moreover have "x < of_int \<lfloor>x\<rfloor> + 1" by linarith
  ultimately show ?thesis unfolding p by (rule less_le_trans [rotated])
next
  case False
  with assms have x: "0 < x" "x < 1" by simp_all
  define N where "N = \<lceil>1 / x\<rceil>"
  define m where "m = nat (N - 1)"
  from x have "1 < 1 / x" by simp
  then have N2: "2 \<le> N" unfolding N_def by linarith
  then have m: "0 < m" "int m = N - 1" by (simp_all add: m_def)
  from floorlog_pos [OF m(1)] obtain j where j: "floorlog 2 m = Suc j"
    by (auto simp: gr0_conv_Suc)
  from floorlog_bounds [of m 2] m j have b: "2 ^ j \<le> m" by simp
  have "ilog2 x = - int (Suc j)"
    using x j by (simp add: ilog2_def N_def m_def)
  then have "ilog2 x + 1 = - int j" by simp
  then have p: "pow2 (ilog2 x + 1) = 1 / 2 ^ j"
    by (simp add: pow2_def)
  from b have "(2::int) ^ j \<le> int m"
    by (metis of_nat_le_iff of_nat_numeral of_nat_power)
  then have "(2::int) ^ j \<le> N - 1" using m(2) by simp
  then have "(of_int (2 ^ j) :: rat) \<le> of_int (N - 1)" by (simp only: of_int_le_iff)
  then have "(2 :: rat) ^ j \<le> of_int N - 1" by simp
  moreover have "of_int N - 1 < 1 / x" unfolding N_def by linarith
  ultimately have "(2 :: rat) ^ j < 1 / x" by (rule le_less_trans)
  then have "x < 1 / 2 ^ j" using x by (simp add: field_simps)
  then show ?thesis unfolding p .
qed

lemma round_even_int: "round_even (of_int z) = z"
  by (simp add: round_even_def)

lemma pow2_nonpos: "e \<le> 0 \<Longrightarrow> pow2 e = 1 / 2 ^ nat (- e)"
  by (cases "e = 0") (simp_all add: pow2_def)

lemma f32_round_nat:
  assumes "n < 2 ^ 24"
  shows "f32_round (of_nat n) = of_nat n"
proof (cases "n = 0")
  case True
  then show ?thesis by (simp add: f32_round_def)
next
  case False
  define x :: rat where "x = of_nat n"
  define e where "e = ilog2 x"
  from False have x: "0 < x" by (simp add: x_def)
  have "x < of_nat (2 ^ 24)" unfolding x_def using assms by (simp only: of_nat_less_iff)
  then have x24: "x < 2 powi 24" by simp
  have "pow2 e \<le> x" unfolding e_def using x by (rule ilog2_lower)
  with x24 have "(2::rat) powi e < 2 powi 24" by (simp add: pow2_powi)
  then have "e < 24"
    by (metis not_less power_int_increasing one_le_numeral)
  then have e: "e - 23 \<le> 0" by simp
  define d where "d = nat (- (e - 23))"
  have s: "pow2 (e - 23) = 1 / 2 ^ d" unfolding d_def using e by (rule pow2_nonpos)
  have "x / pow2 (e - 23) = of_int (int n * 2 ^ d)"
    by (simp add: s x_def)
  then have "round_even (x / pow2 (e - 23)) = int n * 2 ^ d"
    by (simp only: round_even_int)
  then have "f32_round x = of_int (int n * 2 ^ d) * pow2 (e - 23)"
    using x by (simp add: f32_round_def e_def)
  also have "\<dots> = x" by (simp add: s x_def)
  finally show ?thesis unfolding x_def .
qed

subsection \<open>A picture that is too big\<close>

text \<open>
  The scaled size of one dimension: the factor \<open>p\<close> does not exceed the rounded quotient of
  that dimension, so the rounded product is at most \<open>(1 + 2^-24)^3\<close> times the available
  size, which is less than a pixel more when the available size is below \<open>2^22\<close>.
\<close>

lemma scaled_upper:
  fixes a b p :: rat
  assumes a: "0 \<le> a" and b: "0 < b"
    and p: "0 \<le> p" "p \<le> f32_round (f32_round a / f32_round b)"
  shows "f32_round (p * f32_round b) \<le> a * (1 + 1 / 2 ^ 24) * (1 + 1 / 2 ^ 24) * (1 + 1 / 2 ^ 24)"
proof -
  let ?u = "1 + 1 / 2 ^ 24 :: rat"
  define A where "A = f32_round a"
  define B where "B = f32_round b"
  have u: "0 \<le> ?u" by simp
  have A: "0 \<le> A" "A \<le> a * ?u"
    unfolding A_def by (rule f32_round_nonneg [OF a], rule f32_round_upper [OF a])
  have B: "0 < B" unfolding B_def using b by (rule f32_round_pos)
  have AB: "0 \<le> A / B" using A B by simp
  have "p * B \<le> f32_round (A / B) * B"
    using p(2) B unfolding A_def B_def by (intro mult_right_mono) simp_all
  also have "\<dots> \<le> A / B * ?u * B"
    using f32_round_upper [OF AB] B by (intro mult_right_mono) simp_all
  also have "\<dots> = A * ?u" using B by simp
  finally have pB: "p * B \<le> A * ?u" .
  have pB0: "0 \<le> p * B" using p(1) B by simp
  have "f32_round (p * B) \<le> p * B * ?u" using pB0 by (rule f32_round_upper)
  also have "\<dots> \<le> A * ?u * ?u" using pB u by (rule mult_right_mono)
  also have "\<dots> \<le> a * ?u * ?u * ?u"
    using A(2) u by (intro mult_right_mono)
  finally show ?thesis unfolding B_def .
qed

lemma cube_small:
  fixes a :: rat
  assumes "0 \<le> a" "a < 2 ^ 22"
  shows "a * (1 + 1 / 2 ^ 24) * (1 + 1 / 2 ^ 24) * (1 + 1 / 2 ^ 24) < a + 1"
proof -
  define c :: rat where "c = (1 + 1 / 2 ^ 24) * (1 + 1 / 2 ^ 24) * (1 + 1 / 2 ^ 24) - 1"
  have c: "0 \<le> c" "2 ^ 22 * c < 1" unfolding c_def by simp_all
  have "a * c \<le> 2 ^ 22 * c" using assms c(1) by (intro mult_right_mono) simp_all
  then have "a * c < 1" using c(2) by (rule le_less_trans)
  then have lt: "a + a * c < a + 1" by linarith
  have eq: "a * (1 + 1 / 2 ^ 24) * (1 + 1 / 2 ^ 24) * (1 + 1 / 2 ^ 24) = a + a * c"
    unfolding c_def by (simp add: algebra_simps)
  show ?thesis unfolding eq by (rule lt)
qed

lemma scaled_aspect:
  fixes b p :: rat
  assumes b: "0 \<le> b" and p: "0 \<le> p"
  shows "p * b * ((1 - 1 / 2 ^ 24) * (1 - 1 / 2 ^ 24)) \<le> f32_round (p * f32_round b)"
    and "f32_round (p * f32_round b) \<le> p * b * ((1 + 1 / 2 ^ 24) * (1 + 1 / 2 ^ 24))"
proof -
  let ?u = "1 + 1 / 2 ^ 24 :: rat" and ?v = "1 - 1 / 2 ^ 24 :: rat"
  define B where "B = f32_round b"
  have uv: "0 \<le> ?u" "0 \<le> ?v" by simp_all
  have B: "0 \<le> B" "B \<le> b * ?u" "b * ?v \<le> B"
    unfolding B_def
    by (rule f32_round_nonneg [OF b], rule f32_round_upper [OF b], rule f32_round_lower [OF b])
  have pB0: "0 \<le> p * B" using p B(1) by simp
  have "p * b * (?v * ?v) = p * (b * ?v) * ?v" by simp
  also have "\<dots> \<le> p * B * ?v"
    using B(3) p uv by (intro mult_right_mono mult_left_mono)
  also have "\<dots> \<le> f32_round (p * B)" using pB0 by (rule f32_round_lower)
  finally show "p * b * (?v * ?v) \<le> f32_round (p * f32_round b)" unfolding B_def .
  have "f32_round (p * B) \<le> p * B * ?u" using pB0 by (rule f32_round_upper)
  also have "\<dots> \<le> p * (b * ?u) * ?u"
    using B(2) p uv by (intro mult_right_mono mult_left_mono)
  also have "\<dots> = p * b * (?u * ?u)" by simp
  finally show "f32_round (p * f32_round b) \<le> p * b * (?u * ?u)" unfolding B_def .
qed

lemma u32_of_f32_below:
  fixes W :: u32
  assumes P: "0 \<le> P" "P < of_nat (unat W) + 1"
  shows "\<exists>fw. u32_of_f32 (Fin P) = Inr fw \<and> int (unat fw) = \<lfloor>P\<rfloor> \<and> fw \<le> W"
proof -
  define n where "n = nat \<lfloor>P\<rfloor>"
  from P(1) have f0: "0 \<le> \<lfloor>P\<rfloor>" by simp
  have "P < of_int (int (unat W) + 1)" using P(2) by simp
  then have "\<lfloor>P\<rfloor> < int (unat W) + 1" by (simp only: floor_less_iff)
  with f0 have "n \<le> unat W" unfolding n_def by linarith
  moreover from f0 have "int n = \<lfloor>P\<rfloor>" unfolding n_def by simp
  ultimately have n: "n \<le> unat W" "int n = \<lfloor>P\<rfloor>" by blast+
  have "unat W < 2 ^ LENGTH(32)" by (rule unsigned_less)
  then have "unat W < 4294967296" by simp
  with n have "\<lfloor>P\<rfloor> < 4294967296" by linarith
  then have lt: "\<lfloor>P\<rfloor> < 2 ^ 32" by simp
  have w: "(word_of_int \<lfloor>P\<rfloor> :: u32) = of_nat n"
    using n(2) by (metis of_int_of_nat_eq)
  have un: "unat (of_nat n :: u32) = n" using n(1) by (rule le_unat_uoi)
  have "u32_of_f32 (Fin P) = Inr (of_nat n)" using lt w by simp
  moreover have "int (unat (of_nat n :: u32)) = \<lfloor>P\<rfloor>" using un n(2) by simp
  moreover have "(of_nat n :: u32) \<le> W" using un n(1) by (simp add: word_le_nat_alt)
  ultimately show ?thesis by blast
qed

lemma f32_of_u32_pos:
  assumes "w \<noteq> 0"
  shows "0 < (of_nat (unat w) :: rat)" "0 < f32_round (of_nat (unat w))"
proof -
  from assms have "0 < unat w" by (simp add: unat_gt_0)
  then show "0 < (of_nat (unat w) :: rat)" by (simp only: of_nat_0_less_iff)
  then show "0 < f32_round (of_nat (unat w))" by (rule f32_round_pos)
qed

lemma scale_prop_fin:
  assumes "w \<noteq> 0" "h \<noteq> 0"
  shows "scale_prop w h win_size_x win_size_y =
     Fin (min (f32_round (f32_round (of_nat (unat win_size_x)) / f32_round (of_nat (unat w))))
              (f32_round (f32_round (of_nat (unat win_size_y)) / f32_round (of_nat (unat h)))))"
  using f32_of_u32_pos(2) [OF assms(1)] f32_of_u32_pos(2) [OF assms(2)]
  by (simp add: scale_prop_def f32_of_u32_def f32_min_def min_def not_less)

lemma small_rat:
  fixes W :: u32
  assumes "unat W < 2 ^ 22"
  shows "(of_nat (unat W) :: rat) < 2 ^ 22"
proof -
  from assms have "(of_nat (unat W) :: rat) < of_nat (2 ^ 22)" by (simp only: of_nat_less_iff)
  then show ?thesis by simp
qed

lemma scaled_dimension:
  fixes W w :: u32 and p :: rat
  assumes nz: "w \<noteq> 0" and small: "unat W < 2 ^ 22"
    and p: "0 \<le> p" "p \<le> f32_round (f32_round (of_nat (unat W)) / f32_round (of_nat (unat w)))"
  shows "\<exists>fw. u32_of_f32 (f32_mult (Fin p) (f32_of_u32 w)) = Inr fw
        \<and> int (unat fw) = \<lfloor>f32_round (p * f32_round (of_nat (unat w)))\<rfloor>
        \<and> fw \<le> W
        \<and> p * of_nat (unat w) * ((1 - 1 / 2 ^ 24) * (1 - 1 / 2 ^ 24)) < of_nat (unat fw) + 1
        \<and> of_nat (unat fw) \<le> p * of_nat (unat w) * ((1 + 1 / 2 ^ 24) * (1 + 1 / 2 ^ 24))"
proof -
  define a :: rat where "a = of_nat (unat W)"
  define b :: rat where "b = of_nat (unat w)"
  define P where "P = f32_round (p * f32_round b)"
  have a: "0 \<le> a" "a < 2 ^ 22"
    unfolding a_def by (rule of_nat_0_le_iff, rule small_rat [OF small])
  have b: "0 < b" unfolding b_def using nz by (rule f32_of_u32_pos(1))
  then have b0: "0 \<le> b" by simp
  have B0: "0 \<le> f32_round b" using b0 by (rule f32_round_nonneg)
  have "0 \<le> p * f32_round b" using p(1) B0 by (rule mult_nonneg_nonneg)
  then have P0: "0 \<le> P" unfolding P_def by (rule f32_round_nonneg)
  have "P \<le> a * (1 + 1 / 2 ^ 24) * (1 + 1 / 2 ^ 24) * (1 + 1 / 2 ^ 24)"
    unfolding P_def using a(1) b p(1) p(2) [folded a_def b_def] by (rule scaled_upper)
  also have "\<dots> < a + 1" using a by (rule cube_small)
  finally have P1: "P < of_nat (unat W) + 1" unfolding a_def .
  from u32_of_f32_below [OF P0 P1] obtain fw where fw:
    "u32_of_f32 (Fin P) = Inr fw" "int (unat fw) = \<lfloor>P\<rfloor>" "fw \<le> W" by blast
  have m: "f32_mult (Fin p) (f32_of_u32 w) = Fin P"
    by (simp add: f32_of_u32_def P_def b_def)
  have r: "(of_nat (unat fw) :: rat) = of_int \<lfloor>P\<rfloor>"
    using fw(2) by (metis of_int_of_nat_eq)
  have lo: "p * b * ((1 - 1 / 2 ^ 24) * (1 - 1 / 2 ^ 24)) \<le> P"
    unfolding P_def using b0 p(1) by (rule scaled_aspect(1))
  have hi: "P \<le> p * b * ((1 + 1 / 2 ^ 24) * (1 + 1 / 2 ^ 24))"
    unfolding P_def using b0 p(1) by (rule scaled_aspect(2))
  have "P < of_int \<lfloor>P\<rfloor> + 1" by linarith
  with lo have lo': "p * b * ((1 - 1 / 2 ^ 24) * (1 - 1 / 2 ^ 24)) < of_nat (unat fw) + 1"
    unfolding r by (rule le_less_trans)
  have "of_int \<lfloor>P\<rfloor> \<le> P" by linarith
  then have hi': "of_nat (unat fw) \<le> p * b * ((1 + 1 / 2 ^ 24) * (1 + 1 / 2 ^ 24))"
    unfolding r using hi by (rule order_trans)
  show ?thesis
    using fw(1,3) fw(2) [unfolded P_def b_def] lo' [unfolded b_def] hi' [unfolded b_def]
    unfolding m by blast
qed

text \<open>
  C5, as claimed: the target size of a picture that is too big is
  \<open>(round (scale * natural_w), round (scale * natural_h))\<close> with
  \<open>scale = min (avail_w / natural_w) (avail_h / natural_h)\<close>. For a picture of 4 by 3 in a
  rectangle of 2 by 2 the scale is \<open>1/2\<close> and the rounded size is 2 by 2; the code gives
  2 by 1, since the conversion of \<open>1.5\<close> to \<^verbatim>\<open>uint32_t\<close> drops the fraction.
\<close>

theorem get_new_size_truncates:
  "get_new_size 4 3 2 2 \<lparr>img_width = 0, img_height = 0\<rparr> = Inr \<lparr>img_width = 2, img_height = 1\<rparr>
   \<and> round (min ((2::rat) / 4) (2 / 3) * 4) = 2
   \<and> round (min ((2::rat) / 4) (2 / 3) * 3) = 2"
  by code_simp

text \<open>
  The products are rounded to single precision before the fraction is dropped: a picture
  of 41 by 41 in a rectangle of 1 by 1 gets the size 0 by 0, since \<open>1/41\<close> rounded to a
  \<^verbatim>\<open>float\<close> and multiplied by 41 is \<open>1 - 2^-24\<close>.
\<close>

lemma get_new_size_41: 
  "get_new_size 41 41 1 1 \<lparr>img_width = 0, img_height = 0\<rparr> = Inr \<lparr>img_width = 0, img_height = 0\<rparr>"
  by code_simp

text \<open>
  C5, amended: for every natural size \<open>(w, h)\<close> with both dimensions positive that exceeds
  the available rectangle in either dimension, and every available rectangle below \<open>2^22\<close>
  pixels in each dimension, the fitter computes in single precision the factor
  \<open>p = min ((float) avail_w / w) ((float) avail_h / h)\<close> and the target size
  \<open>(\<lfloor>p * w\<rfloor>, \<lfloor>p * h\<rfloor>)\<close>, each product rounded to single precision and its fraction
  dropped (not rounded to the nearest integer). Neither target dimension exceeds its
  available bound, and each target dimension \<open>t\<close> of a natural dimension \<open>n\<close> satisfies
  \<open>p * n * (1 - 2^-24)^2 - 1 < t \<le> p * n * (1 + 2^-24)^2\<close>: both dimensions are scaled
  by the same factor, up to one pixel and the rounding of the products. \<^verbatim>\<open>draw_png\<close>
  computes the same \<open>scaled_size\<close>.
\<close>

theorem get_new_size_downscale:
  assumes big: "win_size_x < w \<or> win_size_y < h"
    and nz: "w \<noteq> 0" "h \<noteq> 0"
    and small: "unat win_size_x < 2 ^ 22" "unat win_size_y < 2 ^ 22"
  shows "\<exists>p format'.
      p = min (f32_round (f32_round (of_nat (unat win_size_x)) / f32_round (of_nat (unat w))))
              (f32_round (f32_round (of_nat (unat win_size_y)) / f32_round (of_nat (unat h))))
    \<and> scale_prop w h win_size_x win_size_y = Fin p
    \<and> get_new_size w h win_size_x win_size_y format = Inr format'
    \<and> scaled_size w h win_size_x win_size_y = Inr format'
    \<and> int (unat (img_width format')) = \<lfloor>f32_round (p * f32_round (of_nat (unat w)))\<rfloor>
    \<and> int (unat (img_height format')) = \<lfloor>f32_round (p * f32_round (of_nat (unat h)))\<rfloor>
    \<and> img_width format' \<le> win_size_x
    \<and> img_height format' \<le> win_size_y
    \<and> p * of_nat (unat w) * ((1 - 1 / 2 ^ 24) * (1 - 1 / 2 ^ 24)) < of_nat (unat (img_width format')) + 1
    \<and> of_nat (unat (img_width format')) \<le> p * of_nat (unat w) * ((1 + 1 / 2 ^ 24) * (1 + 1 / 2 ^ 24))
    \<and> p * of_nat (unat h) * ((1 - 1 / 2 ^ 24) * (1 - 1 / 2 ^ 24)) < of_nat (unat (img_height format')) + 1
    \<and> of_nat (unat (img_height format')) \<le> p * of_nat (unat h) * ((1 + 1 / 2 ^ 24) * (1 + 1 / 2 ^ 24))"
proof -
  define qx where "qx = f32_round (f32_round (of_nat (unat win_size_x)) / f32_round (of_nat (unat w)))"
  define qy where "qy = f32_round (f32_round (of_nat (unat win_size_y)) / f32_round (of_nat (unat h)))"
  define p where "p = min qx qy"
  have sp: "scale_prop w h win_size_x win_size_y = Fin p"
    unfolding p_def qx_def qy_def using nz by (rule scale_prop_fin)
  have "0 \<le> f32_round (of_nat (unat win_size_x)) / f32_round (of_nat (unat w))"
    by (intro divide_nonneg_nonneg f32_round_nonneg of_nat_0_le_iff)
  then have qx0: "0 \<le> qx" unfolding qx_def by (rule f32_round_nonneg)
  have "0 \<le> f32_round (of_nat (unat win_size_y)) / f32_round (of_nat (unat h))"
    by (intro divide_nonneg_nonneg f32_round_nonneg of_nat_0_le_iff)
  then have qy0: "0 \<le> qy" unfolding qy_def by (rule f32_round_nonneg)
  have p0: "0 \<le> p" unfolding p_def using qx0 qy0 by simp
  have px: "p \<le> qx" and py: "p \<le> qy" unfolding p_def by simp_all
  from scaled_dimension [OF nz(1) small(1) p0 px [unfolded qx_def]]
  obtain fw where fw: "u32_of_f32 (f32_mult (Fin p) (f32_of_u32 w)) = Inr fw"
    "int (unat fw) = \<lfloor>f32_round (p * f32_round (of_nat (unat w)))\<rfloor>"
    "fw \<le> win_size_x"
    "p * of_nat (unat w) * ((1 - 1 / 2 ^ 24) * (1 - 1 / 2 ^ 24)) < of_nat (unat fw) + 1"
    "of_nat (unat fw) \<le> p * of_nat (unat w) * ((1 + 1 / 2 ^ 24) * (1 + 1 / 2 ^ 24))"
    by blast
  from scaled_dimension [OF nz(2) small(2) p0 py [unfolded qy_def]]
  obtain fh where fh: "u32_of_f32 (f32_mult (Fin p) (f32_of_u32 h)) = Inr fh"
    "int (unat fh) = \<lfloor>f32_round (p * f32_round (of_nat (unat h)))\<rfloor>"
    "fh \<le> win_size_y"
    "p * of_nat (unat h) * ((1 - 1 / 2 ^ 24) * (1 - 1 / 2 ^ 24)) < of_nat (unat fh) + 1"
    "of_nat (unat fh) \<le> p * of_nat (unat h) * ((1 + 1 / 2 ^ 24) * (1 + 1 / 2 ^ 24))"
    by blast
  have ss: "scaled_size w h win_size_x win_size_y = Inr \<lparr>img_width = fw, img_height = fh\<rparr>"
    unfolding scaled_size_def sp fw(1) fh(1) by simp
  have gs: "get_new_size w h win_size_x win_size_y format = Inr \<lparr>img_width = fw, img_height = fh\<rparr>"
    unfolding get_new_size_def ss using big by simp
  have sel: "img_width \<lparr>img_width = fw, img_height = fh\<rparr> = fw"
    "img_height \<lparr>img_width = fw, img_height = fh\<rparr> = fh" by simp_all
  note pd = p_def [unfolded qx_def qy_def]
  show ?thesis
    apply (rule exI [of _ p])
    apply (rule exI [of _ "\<lparr>img_width = fw, img_height = fh\<rparr>"])
    unfolding sel
    using pd sp gs ss fw(2-5) fh(2-5)
    by - (intro conjI; assumption)
qed

theorem get_new_size_downscale_witness:
  "((4::u32) < 8 \<or> (4::u32) < 6) \<and> (8::u32) \<noteq> 0 \<and> (6::u32) \<noteq> 0 \<and> unat (4::u32) < 2 ^ 22
   \<and> get_new_size 8 6 4 4 \<lparr>img_width = 0, img_height = 0\<rparr> = Inr \<lparr>img_width = 4, img_height = 3\<rparr>
   \<and> (4::u32) \<le> 4 \<and> (3::u32) \<le> 4"
proof -
  have big: "(4::u32) < 8 \<or> (4::u32) < 6" and nz: "(8::u32) \<noteq> 0" "(6::u32) \<noteq> 0"
    and small: "unat (4::u32) < 2 ^ 22"
    by simp_all
  have e: "get_new_size 8 6 4 4 \<lparr>img_width = 0, img_height = 0\<rparr> = Inr \<lparr>img_width = 4, img_height = 3\<rparr>"
    by code_simp
  from get_new_size_downscale [OF big nz small small, of "\<lparr>img_width = 0, img_height = 0\<rparr>"]
  obtain format' where f:
    "get_new_size 8 6 4 4 \<lparr>img_width = 0, img_height = 0\<rparr> = Inr format'"
    "img_width format' \<le> 4" "img_height format' \<le> 4"
    by blast
  from f(1) e have "format' = \<lparr>img_width = 4, img_height = 3\<rparr>" by simp
  with f(2,3) e big nz small show ?thesis by simp
qed

end
